theory Spec2Isabelle
  imports Main "HOL-Library.Sublist" "HOL-Library.Multiset" "HOL-Library.AList"
begin

section \<open>Conventions\<close>

text \<open>
  The two scripts are \<^verbatim>\<open>scripts/generate-docusaurus-md.py\<close> and
  \<^verbatim>\<open>scripts/prune-toc.py\<close>. A Python \<^verbatim>\<open>str\<close> is modelled as a \<^typ>\<open>string\<close>, one
  \<^typ>\<open>char\<close> per code point, so the model covers the code points below 256; the
  character classes of Python's \<^verbatim>\<open>re\<close> and \<^verbatim>\<open>str\<close> are written out for that range.
  A Python exception is a value of \<open>py_error\<close>, returned as \<open>Inl\<close>.
\<close>

datatype py_error = KeyError | AttributeError | TypeError

section \<open>Data model\<close>

text \<open>The dataclasses \<^verbatim>\<open>MemberItem\<close> and \<^verbatim>\<open>TypeItem\<close>, field by field.\<close>

record MemberItem =
  uid :: string
  name :: string
  type_kind :: string
  summary :: string
  syntax_content :: string
  parameters :: "(string \<times> string) list list"
  return_type :: string
  return_description :: string
  example :: string

record TypeItem =
  uid :: string
  name :: string
  full_name :: string
  type_kind :: string
  summary :: string
  remarks :: string
  syntax_content :: string
  namespace :: string
  parent :: string
  inheritance :: "string list"
  implements :: "string list"
  children_uids :: "string list"
  members :: "MemberItem list"
  example :: string

text \<open>\<^verbatim>\<open>TypeItem()\<close>: every field at its dataclass default.\<close>

definition TypeItem_default :: TypeItem where
  "TypeItem_default =
     \<lparr>uid = [], name = [], full_name = [], type_kind = [], summary = [], remarks = [],
      syntax_content = [], namespace = [], parent = [], inheritance = [], implements = [],
      children_uids = [], members = [], example = []\<rparr>"

section \<open>Strings\<close>

text \<open>
  Python's character classes on the code points below 256: \<open>is_space\<close> is \<^verbatim>\<open>str.isspace\<close>,
  the class \<^verbatim>\<open>\s\<close> of \<^verbatim>\<open>re\<close> and what \<^verbatim>\<open>str.strip()\<close> strips; \<open>is_word\<close> is the class
  \<^verbatim>\<open>\w\<close> (letters, digits and the underscore); \<open>is_linebreak\<close> are the line boundaries of
  \<^verbatim>\<open>str.splitlines\<close>. The dot of \<^verbatim>\<open>re\<close> matches every character but the newline 0x0A.
\<close>

definition is_space :: "char \<Rightarrow> bool" where
  "is_space c = (c \<in> set [CHR 0x09, CHR 0x0A, CHR 0x0B, CHR 0x0C, CHR 0x0D, CHR 0x1C, CHR 0x1D,
     CHR 0x1E, CHR 0x1F, CHR 0x20, CHR 0x85, CHR 0xA0])"

definition is_word :: "char \<Rightarrow> bool" where
  "is_word c = (let n = (of_char c :: nat) in
     (48 \<le> n \<and> n \<le> 57) \<or> (65 \<le> n \<and> n \<le> 90) \<or> n = 95 \<or> (97 \<le> n \<and> n \<le> 122) \<or>
     n = 170 \<or> n = 178 \<or> n = 179 \<or> n = 181 \<or> n = 185 \<or> n = 186 \<or>
     (188 \<le> n \<and> n \<le> 190) \<or> (192 \<le> n \<and> n \<le> 214) \<or> (216 \<le> n \<and> n \<le> 246) \<or>
     (248 \<le> n \<and> n \<le> 255))"

definition is_linebreak :: "char \<Rightarrow> bool" where
  "is_linebreak c = (c \<in> set [CHR 0x0A, CHR 0x0B, CHR 0x0C, CHR 0x0D, CHR 0x1C, CHR 0x1D,
     CHR 0x1E, CHR 0x85])"

text \<open>\<^verbatim>\<open>s.strip()\<close>.\<close>

definition strip :: "string \<Rightarrow> string" where
  "strip s = rev (dropWhile is_space (rev (dropWhile is_space s)))"

text \<open>
  \<^verbatim>\<open>s.splitlines()\<close>: the lines without their line breaks, a carriage return followed by a
  newline counting as one break, and no empty last line after a final break. \<open>cur\<close> is the
  line read so far, \<open>after_cr\<close> says that the character just read was a carriage return.
\<close>

fun splitlines_aux :: "bool \<Rightarrow> string \<Rightarrow> string \<Rightarrow> string list" where
  "splitlines_aux after_cr cur [] = (if cur = [] then [] else [cur])"
| "splitlines_aux after_cr cur (c # cs) =
     (if after_cr \<and> c = CHR 0x0A then splitlines_aux False cur cs
      else if is_linebreak c then cur # splitlines_aux (c = CHR 0x0D) [] cs
      else splitlines_aux False (cur @ [c]) cs)"

definition splitlines :: "string \<Rightarrow> string list" where
  "splitlines s = splitlines_aux False [] s"

text \<open>\<^verbatim>\<open>s.split(sep)\<close> for a separator of one character, and \<^verbatim>\<open>"\n".join(lines)\<close>.\<close>

fun split_on_aux :: "char \<Rightarrow> string \<Rightarrow> string \<Rightarrow> string list" where
  "split_on_aux sep cur [] = [cur]"
| "split_on_aux sep cur (c # cs) =
     (if c = sep then cur # split_on_aux sep [] cs else split_on_aux sep (cur @ [c]) cs)"

definition split_on :: "char \<Rightarrow> string \<Rightarrow> string list" where
  "split_on sep s = split_on_aux sep [] s"

fun join_nl :: "string list \<Rightarrow> string" where
  "join_nl [] = []"
| "join_nl [l] = l"
| "join_nl (l # ls) = l @ ''\<newline>'' @ join_nl ls"

text \<open>A literal piece of a pattern: what is left of \<open>s\<close> after the prefix \<open>p\<close>, if \<open>s\<close> starts with it.\<close>

fun strip_prefix :: "string \<Rightarrow> string \<Rightarrow> string option" where
  "strip_prefix [] s = Some s"
| "strip_prefix (p # ps) [] = None"
| "strip_prefix (p # ps) (c # cs) = (if p = c then strip_prefix ps cs else None)"

section \<open>classify_types\<close>

type_synonym pages = "string \<rightharpoonup> TypeItem list"

text \<open>The dict literal that \<^verbatim>\<open>classify_types\<close> starts from.\<close>

definition initial_pages :: pages where
  "initial_pages =
     [''camunda-client'' \<mapsto> [], ''configuration'' \<mapsto> [], ''runtime'' \<mapsto> [],
      ''models'' \<mapsto> [], ''enums'' \<mapsto> [], ''keys'' \<mapsto> []]"

definition CONFIGURATION_TYPES :: "string set" where
  "CONFIGURATION_TYPES =
     {''CamundaOptions'', ''CamundaConfig'', ''ConfigurationHydrator'', ''AuthConfig'',
      ''BasicAuthConfig'', ''OAuthConfig'', ''OAuthRetryConfig'', ''HttpRetryConfig'',
      ''BackpressureConfig'', ''EventualConfig'', ''ValidationConfig'', ''ValidationMode'',
      ''AuthStrategy'', ''JobWorkerConfig'', ''ConfigErrorCode'', ''ConfigErrorDetail''}"

text \<open>The tuple of the first test, \<^verbatim>\<open>name in ("CamundaClient", "Camunda", ...)\<close>.\<close>

definition CLIENT_NAMES :: "string set" where
  "CLIENT_NAMES = {''CamundaClient'', ''Camunda'', ''CamundaServiceCollectionExtensions''}"

text \<open>\<^verbatim>\<open>pages[k].append(t)\<close>; a key that is not in the dict raises \<^verbatim>\<open>KeyError\<close>.\<close>

definition pages_append :: "pages \<Rightarrow> string \<Rightarrow> TypeItem \<Rightarrow> py_error + pages" where
  "pages_append pages k t =
     (case pages k of None \<Rightarrow> Inl KeyError | Some ts \<Rightarrow> Inr (pages(k \<mapsto> ts @ [t])))"

text \<open>\<^verbatim>\<open>t.namespace or t.parent or ""\<close>: the first non-empty of the two, else empty.\<close>

definition ns_of :: "TypeItem \<Rightarrow> string" where
  "ns_of t = (if namespace t \<noteq> [] then namespace t else if parent t \<noteq> [] then parent t else [])"

text \<open>The body of the \<^verbatim>\<open>for t in types\<close> loop.\<close>

definition classify_step :: "pages \<Rightarrow> TypeItem \<Rightarrow> py_error + pages" where
  "classify_step pages t =
     (let ns = ns_of t; name = name t in
      if name \<in> CLIENT_NAMES then pages_append pages ''camunda-client'' t
      else if name \<in> CONFIGURATION_TYPES then pages_append pages ''configuration'' t
      else if type_kind t = ''Enum'' \<and> name \<notin> CONFIGURATION_TYPES
        then pages_append pages ''enums'' t
      else if type_kind t = ''Struct'' \<and> suffix ''Key'' name then pages_append pages ''keys'' t
      else if sublist ''Runtime'' ns then pages_append pages ''runtime'' t
      else pages_append pages ''models'' t)"

fun classify_loop :: "pages \<Rightarrow> TypeItem list \<Rightarrow> py_error + pages" where
  "classify_loop pages [] = Inr pages"
| "classify_loop pages (t # ts) =
     (case classify_step pages t of Inl e \<Rightarrow> Inl e | Inr pages' \<Rightarrow> classify_loop pages' ts)"

definition classify_types :: "TypeItem list \<Rightarrow> py_error + pages" where
  "classify_types types = classify_loop initial_pages types"

text \<open>The key under which the loop body files a type (used in the proofs only).\<close>

definition page_of :: "TypeItem \<Rightarrow> string" where
  "page_of t =
     (if name t \<in> CLIENT_NAMES then ''camunda-client''
      else if name t \<in> CONFIGURATION_TYPES then ''configuration''
      else if type_kind t = ''Enum'' then ''enums''
      else if type_kind t = ''Struct'' \<and> suffix ''Key'' (name t) then ''keys''
      else if sublist ''Runtime'' (ns_of t) then ''runtime''
      else ''models'')"

definition PAGE_KEYS :: "string list" where
  "PAGE_KEYS = [''camunda-client'', ''configuration'', ''runtime'', ''models'', ''enums'', ''keys'']"

text \<open>The list under key \<open>k\<close> of the result, and a type being in it.\<close>

definition bucket :: "pages \<Rightarrow> string \<Rightarrow> TypeItem list" where
  "bucket pages k = (case pages k of None \<Rightarrow> [] | Some b \<Rightarrow> b)"

definition in_bucket :: "pages \<Rightarrow> string \<Rightarrow> TypeItem \<Rightarrow> bool" where
  "in_bucket pages k t = (t \<in> set (bucket pages k))"

text \<open>The type \<open>t\<close> is in the bucket \<open>k\<close> and in no other.\<close>

definition placed_in :: "pages \<Rightarrow> TypeItem \<Rightarrow> string \<Rightarrow> bool" where
  "placed_in pages t k = (\<forall>k'. in_bucket pages k' t = (k' = k))"

text \<open>The dict whose six buckets are the sublists of \<open>ts\<close> by \<open>page_of\<close>.\<close>

definition pages_by :: "TypeItem list \<Rightarrow> pages" where
  "pages_by ts = (\<lambda>k. if k \<in> set PAGE_KEYS then Some (filter (\<lambda>t. page_of t = k) ts) else None)"

text \<open>Six example types, one for each rule of the loop body.\<close>

definition ex_client :: TypeItem where
  "ex_client = TypeItem_default\<lparr>name := ''CamundaClient'', type_kind := ''Class''\<rparr>"

definition ex_config :: TypeItem where
  "ex_config = TypeItem_default\<lparr>name := ''AuthStrategy'', type_kind := ''Enum''\<rparr>"

definition ex_enum :: TypeItem where
  "ex_enum = TypeItem_default\<lparr>name := ''JobState'', type_kind := ''Enum'',
     namespace := ''Camunda.Orchestration.Sdk.Runtime''\<rparr>"

definition ex_key :: TypeItem where
  "ex_key = TypeItem_default\<lparr>name := ''ProcessInstanceKey'', type_kind := ''Struct'',
     namespace := ''Camunda.Orchestration.Sdk.Runtime''\<rparr>"

definition ex_runtime :: TypeItem where
  "ex_runtime = TypeItem_default\<lparr>name := ''JobWorker'', type_kind := ''Class'',
     parent := ''Camunda.Orchestration.Sdk.Runtime''\<rparr>"

definition ex_model :: TypeItem where
  "ex_model = TypeItem_default\<lparr>name := ''JobResult'', type_kind := ''Struct'',
     namespace := ''Camunda.Orchestration.Sdk''\<rparr>"

definition ex_types :: "TypeItem list" where
  "ex_types = [ex_client, ex_config, ex_enum, ex_key, ex_runtime, ex_model]"

section \<open>_method_group\<close>

definition GROUP_PREFIXES :: "(string \<times> string) list" where
  "GROUP_PREFIXES =
     [(''ProcessInstance'', ''Process Instances''),
      (''ProcessDefinition'', ''Process Definitions''),
      (''Job'', ''Jobs''),
      (''UserTask'', ''User Tasks''),
      (''DecisionDefinition'', ''Decision Definitions''),
      (''DecisionRequirements'', ''Decision Requirements''),
      (''DecisionInstance'', ''Decision Instances''),
      (''Decision'', ''Decisions''),
      (''Incident'', ''Incidents''),
      (''Variable'', ''Variables''),
      (''FlowNode'', ''Flow Nodes''),
      (''Element'', ''Elements''),
      (''Message'', ''Messages''),
      (''Signal'', ''Signals''),
      (''Resource'', ''Resources''),
      (''Deploy'', ''Deployments''),
      (''Topology'', ''Cluster''),
      (''Authentication'', ''Cluster''),
      (''Clock'', ''Cluster''),
      (''Backpressure'', ''Cluster''),
      (''License'', ''Cluster''),
      (''Worker'', ''Job Workers''),
      (''RunWorkers'', ''Job Workers''),
      (''Tenant'', ''Tenants''),
      (''Role'', ''Roles''),
      (''Group'', ''Groups''),
      (''Mapping'', ''Mappings''),
      (''Authorization'', ''Authorizations''),
      (''AuditLog'', ''Audit Logs''),
      (''BatchOperation'', ''Batch Operations''),
      (''DocumentLink'', ''Documents''),
      (''Document'', ''Documents''),
      (''AdHocSubProcess'', ''Ad Hoc Sub-Processes'')]"

text \<open>
  \<^verbatim>\<open>re.sub(r"Async$", "", name)\<close>. Without \<^verbatim>\<open>re.MULTILINE\<close>, \<^verbatim>\<open>$\<close> matches at the end of the
  string and just before a newline that ends the string, so there is at most one match.
\<close>

definition strip_async :: "string \<Rightarrow> string" where
  "strip_async nm =
     (if suffix ''Async'' nm then take (length nm - 5) nm
      else if suffix ''Async\<newline>'' nm then take (length nm - 6) nm @ ''\<newline>''
      else nm)"

text \<open>The \<^verbatim>\<open>for prefix, group in GROUP_PREFIXES\<close> loop; \<^verbatim>\<open>prefix in base\<close> is substring containment.\<close>

fun group_loop :: "(string \<times> string) list \<Rightarrow> string \<Rightarrow> string" where
  "group_loop [] base = ''Other''"
| "group_loop ((pfx, grp) # rest) base =
     (if sublist pfx base then grp else group_loop rest base)"

definition method_group :: "string \<Rightarrow> string" where
  "method_group nm = group_loop GROUP_PREFIXES (strip_async nm)"

text \<open>
  The lookup as the specification words it, a key matching the stripped name as a prefix
  (\<^verbatim>\<open>base.startswith(key)\<close>); it is here to be compared with \<open>method_group\<close>.
\<close>

fun group_loop_by_prefix :: "(string \<times> string) list \<Rightarrow> string \<Rightarrow> string" where
  "group_loop_by_prefix [] base = ''Other''"
| "group_loop_by_prefix ((pfx, grp) # rest) base =
     (if prefix pfx base then grp else group_loop_by_prefix rest base)"

definition method_group_by_prefix :: "string \<Rightarrow> string" where
  "method_group_by_prefix nm = group_loop_by_prefix GROUP_PREFIXES (strip_async nm)"

section \<open>_short_type\<close>

text \<open>
  \<^verbatim>\<open>parts = full.rsplit(".", 1); parts[-1] if len(parts) > 1 else full\<close>: what follows the
  last dot, or the whole string when it has no dot.
\<close>

definition rsplit_last :: "string \<Rightarrow> string" where
  "rsplit_last full =
     (if CHR ''.'' \<in> set full then rev (takeWhile (\<lambda>c. c \<noteq> CHR ''.'') (rev full)) else full)"

text \<open>
  \<open>sub_generic\<close> is \<^verbatim>\<open>re.sub(r"\{([^}]+)\}", lambda m: f"<{_short_type(m.group(1))}>", full)\<close>.
  At an opening brace the group is the longest run of characters other than a closing
  brace; the match needs the run to be non-empty and a closing brace to follow it, and no
  shorter run can be followed by one. The scan goes on after the match, or at the next
  character when there is none.
\<close>

function short_type :: "string \<Rightarrow> string" and sub_generic :: "string \<Rightarrow> string" where
  "short_type full = (if full = [] then full else rsplit_last (sub_generic full))"
| "sub_generic [] = []"
| "sub_generic (c # cs) =
     (let g = takeWhile (\<lambda>x. x \<noteq> CHR ''}'') cs; rest = dropWhile (\<lambda>x. x \<noteq> CHR ''}'') cs in
      if c = CHR ''{'' \<and> g \<noteq> [] \<and> rest \<noteq> []
      then ''<'' @ short_type g @ ''>'' @ sub_generic (tl rest)
      else c # sub_generic cs)"
  by pat_completeness auto
termination
proof (relation "measure (\<lambda>x. case x of Inl s \<Rightarrow> 2 * length s + 1 | Inr s \<Rightarrow> 2 * length s)")
  show "wf (measure (\<lambda>x. case x of Inl s \<Rightarrow> 2 * length s + 1 | Inr s \<Rightarrow> 2 * length s))"
    by simp
next
  fix full :: string
  assume "full \<noteq> []"
  then show "(Inr full, Inl full)
      \<in> measure (\<lambda>x. case x of Inl s \<Rightarrow> 2 * length s + 1 | Inr s \<Rightarrow> 2 * length s)"
    by simp
next
  fix c :: char and cs g rest :: string
  assume "g = takeWhile (\<lambda>x. x \<noteq> CHR ''}'') cs"
  then have "length g \<le> length cs" by (simp add: length_takeWhile_le)
  then show "(Inl g, Inr (c # cs))
      \<in> measure (\<lambda>x. case x of Inl s \<Rightarrow> 2 * length s + 1 | Inr s \<Rightarrow> 2 * length s)"
    by simp
next
  fix c :: char and cs g rest :: string
  assume "rest = dropWhile (\<lambda>x. x \<noteq> CHR ''}'') cs"
  then have "length rest \<le> length cs" by (simp add: length_dropWhile_le)
  then show "(Inr (tl rest), Inr (c # cs))
      \<in> measure (\<lambda>x. case x of Inl s \<Rightarrow> 2 * length s + 1 | Inr s \<Rightarrow> 2 * length s)"
    by simp
next
  fix c :: char and cs :: string
  show "(Inr cs, Inr (c # cs))
      \<in> measure (\<lambda>x. case x of Inl s \<Rightarrow> 2 * length s + 1 | Inr s \<Rightarrow> 2 * length s)"
    by simp
qed

section \<open>prune-toc.py\<close>














section \<open>parse_region_tags\<close>

text \<open>
  \<^verbatim>\<open>re.match(r"^//\s*<(\w+)>\s*$", stripped)\<close> and its group 1. Every repetition is followed
  by a character outside its class, so nothing is gained by backtracking; \<^verbatim>\<open>\s*$\<close> holds when
  only white space is left.
\<close>

definition match_open :: "string \<Rightarrow> string option" where
  "match_open s =
     (case strip_prefix ''//'' s of
        None \<Rightarrow> None
      | Some r \<Rightarrow>
          (case strip_prefix ''<'' (dropWhile is_space r) of
             None \<Rightarrow> None
           | Some r2 \<Rightarrow>
               (case strip_prefix ''>'' (dropWhile is_word r2) of
                  None \<Rightarrow> None
                | Some r3 \<Rightarrow>
                    if takeWhile is_word r2 \<noteq> [] \<and> list_all is_space r3
                    then Some (takeWhile is_word r2) else None)))"

text \<open>\<^verbatim>\<open>re.match(r"^//\s*</(\w+)>\s*$", stripped)\<close> and its group 1.\<close>

definition match_close :: "string \<Rightarrow> string option" where
  "match_close s =
     (case strip_prefix ''//'' s of
        None \<Rightarrow> None
      | Some r \<Rightarrow>
          (case strip_prefix ''</'' (dropWhile is_space r) of
             None \<Rightarrow> None
           | Some r2 \<Rightarrow>
               (case strip_prefix ''>'' (dropWhile is_word r2) of
                  None \<Rightarrow> None
                | Some r3 \<Rightarrow>
                    if takeWhile is_word r2 \<noteq> [] \<and> list_all is_space r3
                    then Some (takeWhile is_word r2) else None)))"

text \<open>
  \<^verbatim>\<open>textwrap.dedent\<close> of the standard library (CPython 3.11), line by line: a line of blanks
  and tabs only becomes empty; the margin is the longest common prefix of the leading blanks
  and tabs of the other non-empty lines; a non-empty margin is removed from every line that
  starts with it.
\<close>

definition is_blank :: "char \<Rightarrow> bool" where
  "is_blank c = (c = CHR '' '' \<or> c = CHR 0x09)"

fun common_prefix :: "string \<Rightarrow> string \<Rightarrow> string" where
  "common_prefix (x # xs) (y # ys) = (if x = y then x # common_prefix xs ys else [])"
| "common_prefix _ _ = []"

definition dedent :: "string \<Rightarrow> string" where
  "dedent text =
     (let ls = map (\<lambda>l. if list_all is_blank l then [] else l) (split_on CHR 0x0A text);
          indents = map (takeWhile is_blank) (filter (\<lambda>l. l \<noteq> []) ls);
          margin = (case indents of [] \<Rightarrow> [] | i # rest \<Rightarrow> foldl common_prefix i rest)
      in join_nl
           (map (\<lambda>l. if margin \<noteq> [] \<and> prefix margin l then drop (length margin) l else l) ls))"

text \<open>The three variables of the loop of \<^verbatim>\<open>parse_region_tags\<close>, and its body.\<close>

record region_state =
  regions :: "string \<rightharpoonup> string"
  current_tag :: "string option"
  lines :: "string list"

definition region_step :: "region_state \<Rightarrow> string \<Rightarrow> region_state" where
  "region_step st line =
     (let stripped = strip line; m_open = match_open stripped; m_close = match_close stripped in
      case m_open of
        Some tag \<Rightarrow> st\<lparr>current_tag := Some tag, lines := []\<rparr>
      | None \<Rightarrow>
          if m_close \<noteq> None \<and> current_tag st = m_close
          then st\<lparr>regions := (regions st)(the m_close \<mapsto> dedent (join_nl (lines st))),
                  current_tag := None, lines := []\<rparr>
          else if current_tag st \<noteq> None then st\<lparr>lines := lines st @ [line]\<rparr>
          else st)"

definition region_init :: region_state where
  "region_init = \<lparr>regions = Map.empty, current_tag = None, lines = []\<rparr>"

text \<open>\<^verbatim>\<open>parse_region_tags\<close>, on the text of the file.\<close>

definition parse_region_tags :: "string \<Rightarrow> string \<rightharpoonup> string" where
  "parse_region_tags text = regions (foldl region_step region_init (splitlines text))"

text \<open>Two example files: a region opened inside an unclosed one, and a region name used twice.\<close>

definition ex_cs :: string where
  "ex_cs = ''class T {\<newline>  // <Old>\<newline>  int y;\<newline>  // <Sample>\<newline>    var x = 1;\<newline>      x++;\<newline>  // </Sample>\<newline>}''"

definition ex_dup :: string where
  "ex_dup = ''// <A>\<newline>x\<newline>// </A>\<newline>// <A>\<newline>y\<newline>// </A>\<newline>''"

section \<open>load_overwrite_examples\<close>

text \<open>
  \<^verbatim>\<open>re.split(r"^---\s*$", text, flags=re.MULTILINE)\<close>. \<open>match_rule\<close> is a match at the start of
  a line and gives what follows the match. The white space after the dashes may run over
  several lines; the match ends at the end of the text when the white space reaches it, and
  otherwise in front of the last newline of the white space (\<^verbatim>\<open>\s*\<close> gives back until \<^verbatim>\<open>$\<close>
  holds), and there is no match when it has no newline.
\<close>

definition match_rule :: "string \<Rightarrow> string option" where
  "match_rule s =
     (case strip_prefix ''---'' s of
        None \<Rightarrow> None
      | Some r \<Rightarrow>
          (let run = takeWhile is_space r in
           if dropWhile is_space r = [] then Some []
           else if CHR 0x0A \<in> set run
             then Some (drop (length run - Suc (length (takeWhile (\<lambda>c. c \<noteq> CHR 0x0A) (rev run)))) r)
           else None))"

text \<open>
  \<open>bol\<close> says that the position is the start of a line, \<open>piece\<close> is the section read so far.
  What follows a match is empty or starts with a newline, so no match starts there.
\<close>

function split_sections :: "bool \<Rightarrow> string \<Rightarrow> string \<Rightarrow> string list" where
  "split_sections bol piece [] = [piece]"
| "split_sections bol piece (c # cs) =
     (case (if bol then match_rule (c # cs) else None) of
        Some rest \<Rightarrow> piece # split_sections False [] rest
      | None \<Rightarrow> split_sections (c = CHR 0x0A) (piece @ [c]) cs)"
  by pat_completeness auto
termination
proof (relation "measure (\<lambda>(bol, piece, s). length s)")
  show "wf (measure (\<lambda>(bol, piece, s). length s))" by simp
next
  fix bol :: bool and piece :: string and c cs rest
  assume "(if bol then match_rule (c # cs) else None) = Some rest"
  then have m: "match_rule (c # cs) = Some rest" by (simp split: if_splits)
  then obtain r where r: "strip_prefix ''---'' (c # cs) = Some r"
    by (auto simp: match_rule_def split: option.splits)
  have "strip_prefix p s = Some q \<Longrightarrow> s = p @ q" for p s q
    by (induction p s rule: strip_prefix.induct) (auto split: if_splits)
  from this [OF r] have "length r < length (c # cs)" by simp
  moreover have "length rest \<le> length r"
    using m r by (auto simp: match_rule_def Let_def split: if_splits)
  ultimately show "((False, [], rest), (bol, piece, c # cs)) \<in> measure (\<lambda>(bol, piece, s). length s)"
    by simp
next
  fix bol :: bool and piece :: string and c cs
  show "((c = CHR 0x0A, piece @ [c], cs), (bol, piece, c # cs)) \<in> measure (\<lambda>(bol, piece, s). length s)"
    by simp
qed

text \<open>
  \<^verbatim>\<open>re.search(r"^uid:\s*(.+)$", section, re.MULTILINE)\<close> and its group 1. When text follows
  the white space, the group is the rest of that line. When the white space reaches the end
  of the section, \<^verbatim>\<open>\s*\<close> gives back up to its last character that is not a newline, which
  alone is the group.
\<close>

definition match_uid :: "string \<Rightarrow> string option" where
  "match_uid s =
     (case strip_prefix ''uid:'' s of
        None \<Rightarrow> None
      | Some r \<Rightarrow>
          if dropWhile is_space r \<noteq> [] then Some (takeWhile (\<lambda>c. c \<noteq> CHR 0x0A) (dropWhile is_space r))
          else (case dropWhile (\<lambda>c. c = CHR 0x0A) (rev (takeWhile is_space r)) of
                  [] \<Rightarrow> None
                | c # _ \<Rightarrow> Some [c]))"

fun search_uid :: "bool \<Rightarrow> string \<Rightarrow> string option" where
  "search_uid bol [] = None"
| "search_uid bol (c # cs) =
     (case (if bol then match_uid (c # cs) else None) of
        Some g \<Rightarrow> Some g
      | None \<Rightarrow> search_uid (c = CHR 0x0A) cs)"

text \<open>
  \<^verbatim>\<open>re.search(r"\[!code-csharp\[\]\(\.\.\/examples\/(\S+)#(\w+)\)\]", section)\<close> and its group 2.
  \<^verbatim>\<open>(\S+)\<close> takes the whole run of characters that are not white space and gives back from
  its end, so the region is read behind the last \<^verbatim>\<open>#\<close> of the run that a name and \<^verbatim>\<open>)]\<close>
  follow, and at least one character stays in front of it.
\<close>

definition ref_tail :: "string \<Rightarrow> string option" where
  "ref_tail s =
     (case strip_prefix ''#'' s of
        None \<Rightarrow> None
      | Some r \<Rightarrow>
          (case strip_prefix '')]'' (dropWhile is_word r) of
             None \<Rightarrow> None
           | Some _ \<Rightarrow> if takeWhile is_word r \<noteq> [] then Some (takeWhile is_word r) else None))"

fun last_ref :: "string \<Rightarrow> string option" where
  "last_ref [] = None"
| "last_ref (c # cs) = (case last_ref cs of Some w \<Rightarrow> Some w | None \<Rightarrow> ref_tail (c # cs))"

definition match_code_ref :: "string \<Rightarrow> string option" where
  "match_code_ref s =
     (case strip_prefix ''[!code-csharp[](../examples/'' s of
        None \<Rightarrow> None
      | Some r \<Rightarrow>
          (case takeWhile (\<lambda>c. \<not> is_space c) r of
             [] \<Rightarrow> None
           | c # run \<Rightarrow> last_ref run))"

fun search_code_ref :: "string \<Rightarrow> string option" where
  "search_code_ref [] = None"
| "search_code_ref (c # cs) =
     (case match_code_ref (c # cs) of Some w \<Rightarrow> Some w | None \<Rightarrow> search_code_ref cs)"

text \<open>
  The body of the loop over the sections of one overwrite file; the state is
  \<^verbatim>\<open>uid_to_example\<close> and \<^verbatim>\<open>current_uid\<close>. \<^verbatim>\<open>if code_ref and current_uid\<close> needs a uid that is
  neither \<^verbatim>\<open>None\<close> nor empty.
\<close>

type_synonym examples = "string \<rightharpoonup> string"

definition overwrite_step :: "examples \<Rightarrow> examples \<times> string option \<Rightarrow> string \<Rightarrow> examples \<times> string option" where
  "overwrite_step all_regions st section0 =
     (let section = strip section0; uid_to_example = fst st; current_uid = snd st in
      if section = [] then st
      else case search_uid True section of
        Some g \<Rightarrow> (uid_to_example, Some (strip g))
      | None \<Rightarrow>
          (case search_code_ref section of
             None \<Rightarrow> st
           | Some region \<Rightarrow>
               if current_uid \<noteq> None \<and> current_uid \<noteq> Some []
               then ((case all_regions region of
                        None \<Rightarrow> uid_to_example
                      | Some ex \<Rightarrow> uid_to_example(the current_uid \<mapsto> ex)), None)
               else st))"

text \<open>One overwrite file, all example files (in the order of the glob), and the whole function.\<close>

definition overwrite_file :: "examples \<Rightarrow> examples \<Rightarrow> string \<Rightarrow> examples" where
  "overwrite_file all_regions uid_to_example text =
     fst (foldl (overwrite_step all_regions) (uid_to_example, None) (split_sections True [] text))"

definition load_all_regions :: "string list \<Rightarrow> examples" where
  "load_all_regions cs_texts = foldl (\<lambda>all_regions text. all_regions ++ parse_region_tags text) Map.empty cs_texts"

definition load_overwrite_examples :: "string list \<Rightarrow> string list \<Rightarrow> examples" where
  "load_overwrite_examples md_texts cs_texts =
     foldl (overwrite_file (load_all_regions cs_texts)) Map.empty md_texts"





section \<open>inject_tech_preview_banner\<close>

definition TECH_PREVIEW_BANNER :: string where
  "TECH_PREVIEW_BANNER =
     ''\<newline>:::caution Technical Preview\<newline>'' @
     ''The C# SDK is a **technical preview** available from Camunda 8.9. '' @
     ''It will become fully supported in Camunda 8.10. '' @
     ''Its API surface may change in future releases without following semver.\<newline>'' @
     '':::\<newline>''"

text \<open>
  \<^verbatim>\<open>re.search(r"^#\s+.+$", content, re.MULTILINE)\<close>. \<open>match_heading\<close> is a match at the start of
  a line and gives its length, which is \<^verbatim>\<open>m.end()\<close> counted from there. \<^verbatim>\<open>\s+\<close> takes the whole
  run of white space, newlines included. When text follows the run, \<^verbatim>\<open>.+\<close> takes the rest of
  that line. When the run reaches the end of the content, \<^verbatim>\<open>\s+\<close> gives back (keeping at least
  one character) up to its last character that is not a newline, which \<^verbatim>\<open>.+\<close> takes alone;
  \<open>newlines\<close> counts the newlines behind that character.
\<close>

definition match_heading :: "string \<Rightarrow> nat option" where
  "match_heading s =
     (case strip_prefix ''#'' s of
        None \<Rightarrow> None
      | Some r \<Rightarrow>
          (let run = takeWhile is_space r; rest = dropWhile is_space r;
               newlines = length (takeWhile (\<lambda>c. c = CHR 0x0A) (rev (tl run))) in
           if run = [] then None
           else if rest \<noteq> []
             then Some (1 + length run + length (takeWhile (\<lambda>c. c \<noteq> CHR 0x0A) rest))
           else if newlines = length (tl run) then None
           else Some (1 + length run - newlines)))"

text \<open>The first match, going through the starts of the lines; \<open>bol\<close> marks the start of a line.\<close>

fun search_heading :: "bool \<Rightarrow> string \<Rightarrow> nat option" where
  "search_heading bol [] = None"
| "search_heading bol (c # cs) =
     (case (if bol then match_heading (c # cs) else None) of
        Some n \<Rightarrow> Some n
      | None \<Rightarrow> map_option Suc (search_heading (c = CHR 0x0A) cs))"

definition inject_tech_preview_banner :: "string \<Rightarrow> string" where
  "inject_tech_preview_banner content =
     (case search_heading True content of
        Some pos \<Rightarrow> take pos content @ ''\<newline>'' @ TECH_PREVIEW_BANNER @ drop pos content
      | None \<Rightarrow> content)"

text \<open>The number of positions at which \<open>pat\<close> occurs in a string.\<close>

fun count_occurrences :: "string \<Rightarrow> string \<Rightarrow> nat" where
  "count_occurrences pat [] = 0"
| "count_occurrences pat (c # cs) =
     (if strip_prefix pat (c # cs) \<noteq> None then Suc (count_occurrences pat cs)
      else count_occurrences pat cs)"

section \<open>Link rewriting\<close>

definition DEPLOYMENT_DEPTH :: nat where
  "DEPLOYMENT_DEPTH = 3"

definition LANDING_PAGE_DEPTH :: nat where
  "LANDING_PAGE_DEPTH = 2"

definition URL_PATH_OVERRIDES :: "(string \<times> string) list" where
  "URL_PATH_OVERRIDES = [(''camunda-api-rest'', ''orchestration-cluster-api-rest'')]"

text \<open>
  \<^verbatim>\<open>s.replace(old, new)\<close>: every occurrence of \<open>old\<close>, from the left and without overlap; an
  empty \<open>old\<close> matches in front of every character and at the end.
\<close>

function str_replace :: "string \<Rightarrow> string \<Rightarrow> string \<Rightarrow> string" where
  "str_replace old new [] = (if old = [] then new else [])"
| "str_replace old new (c # cs) =
     (if old = [] then new @ c # str_replace old new cs
      else case strip_prefix old (c # cs) of
        Some rest \<Rightarrow> new @ str_replace old new rest
      | None \<Rightarrow> c # str_replace old new cs)"
  by pat_completeness auto
termination
proof (relation "measure (\<lambda>(old, new, s). length s)")
  show "wf (measure (\<lambda>(old, new, s). length s))" by simp
next
  fix old new :: string and c cs
  show "((old, new, cs), (old, new, c # cs)) \<in> measure (\<lambda>(old, new, s). length s)" by simp
next
  fix old new :: string and c cs rest
  assume "old \<noteq> []" and r: "strip_prefix old (c # cs) = Some rest"
  have "strip_prefix p s = Some q \<Longrightarrow> s = p @ q" for p s q
    by (induction p s rule: strip_prefix.induct) (auto split: if_splits)
  from this [OF r] \<open>old \<noteq> []\<close> have "length rest < length (c # cs)" by (cases old) auto
  then show "((old, new, rest), (old, new, c # cs)) \<in> measure (\<lambda>(old, new, s). length s)" by simp
next
  fix old new :: string and c cs
  show "((old, new, cs), (old, new, c # cs)) \<in> measure (\<lambda>(old, new, s). length s)" by simp
qed

text \<open>The loop \<^verbatim>\<open>for old, new in _URL_PATH_OVERRIDES.items()\<close>, and \<^verbatim>\<open>rstrip("/")\<close>.\<close>

definition apply_overrides :: "string \<Rightarrow> string" where
  "apply_overrides url_path = foldl (\<lambda>p (old, new). str_replace old new p) url_path URL_PATH_OVERRIDES"

definition rstrip_slash :: "string \<Rightarrow> string" where
  "rstrip_slash s = rev (dropWhile (\<lambda>c. c = CHR ''/'') (rev s))"

text \<open>
  The pattern \<^verbatim>\<open>\[([^\]]*)\]\(https?://docs\.camunda\.io/docs/(?:next/)?(.*?)\)\<close>, shared by
  \<^verbatim>\<open>_DOCS_LINK_RE\<close> and \<^verbatim>\<open>_rewrite_landing_links\<close>. \<open>match_docs_link\<close> is a match at the start of
  the string and gives group 1, group 2 and what follows the match. Group 1 runs to the first
  closing bracket. An \<^verbatim>\<open>s\<close> or a \<^verbatim>\<open>next/\<close> that is there is taken, and giving it back never helps.
  Group 2 is lazy: it runs to the first closing parenthesis and must meet no newline before.
\<close>

definition in_path :: "char \<Rightarrow> bool" where
  "in_path c = (c \<noteq> CHR '')'' \<and> c \<noteq> CHR 0x0A)"

definition optional :: "string \<Rightarrow> string \<Rightarrow> string" where
  "optional p s = (case strip_prefix p s of Some r \<Rightarrow> r | None \<Rightarrow> s)"

definition match_docs_link :: "string \<Rightarrow> (string \<times> string \<times> string) option" where
  "match_docs_link s =
     (case strip_prefix ''['' s of
        None \<Rightarrow> None
      | Some r \<Rightarrow>
          (case strip_prefix ''](http'' (dropWhile (\<lambda>c. c \<noteq> CHR '']'') r) of
             None \<Rightarrow> None
           | Some r2 \<Rightarrow>
               (case strip_prefix ''://docs.camunda.io/docs/'' (optional ''s'' r2) of
                  None \<Rightarrow> None
                | Some r3 \<Rightarrow>
                    (case strip_prefix '')'' (dropWhile in_path (optional ''next/'' r3)) of
                       None \<Rightarrow> None
                     | Some rest \<Rightarrow>
                         Some (takeWhile (\<lambda>c. c \<noteq> CHR '']'') r,
                               takeWhile in_path (optional ''next/'' r3), rest)))))"

text \<open>
  \<^verbatim>\<open>pattern.sub(repl, content)\<close>: the matches from the left, without overlap, each replaced
  by \<open>repl\<close> of its two groups; a match is never empty.
\<close>

function docs_link_sub :: "(string \<Rightarrow> string \<Rightarrow> string) \<Rightarrow> string \<Rightarrow> string" where
  "docs_link_sub repl [] = []"
| "docs_link_sub repl (c # cs) =
     (case match_docs_link (c # cs) of
        Some (text, url_path, rest) \<Rightarrow> repl text url_path @ docs_link_sub repl rest
      | None \<Rightarrow> c # docs_link_sub repl cs)"
  by pat_completeness auto
termination
proof (relation "measure (\<lambda>(repl, s). length s)")
  show "wf (measure (\<lambda>(repl, s). length s))" by simp
next
  fix repl :: "string \<Rightarrow> string \<Rightarrow> string" and c cs x t y url_path rest
  assume m: "match_docs_link (c # cs) = Some x" and "(t, y) = x" and "(url_path, rest) = y"
  then have m: "match_docs_link (c # cs) = Some (t, url_path, rest)" by simp
  have sp: "strip_prefix p s = Some q \<Longrightarrow> s = p @ q" for p s q
    by (induction p s rule: strip_prefix.induct) (auto split: if_splits)
  have opt: "length (optional p s) \<le> length s" for p s
    by (auto simp: optional_def dest!: sp split: option.splits)
  from m obtain r r2 r3 where a: "strip_prefix ''['' (c # cs) = Some r"
    and b: "strip_prefix ''](http'' (dropWhile (\<lambda>c. c \<noteq> CHR '']'') r) = Some r2"
    and c: "strip_prefix ''://docs.camunda.io/docs/'' (optional ''s'' r2) = Some r3"
    and d: "strip_prefix '')'' (dropWhile in_path (optional ''next/'' r3)) = Some rest"
    by (auto simp del: strip_prefix.simps simp: match_docs_link_def split: option.splits)
  have "length rest < length (optional ''next/'' r3)"
    using length_dropWhile_le [of in_path "optional ''next/'' r3"] sp [OF d] by simp
  also have "\<dots> \<le> length r3" by (rule opt)
  also have "\<dots> \<le> length (optional ''s'' r2)" using sp [OF c] by simp
  also have "\<dots> \<le> length r2" by (rule opt)
  also have "\<dots> \<le> length (dropWhile (\<lambda>c. c \<noteq> CHR '']'') r)" using sp [OF b] by simp
  also have "\<dots> \<le> length r" by (rule length_dropWhile_le)
  also have "\<dots> \<le> length (c # cs)" using sp [OF a] by simp
  finally show "((repl, rest), (repl, c # cs)) \<in> measure (\<lambda>(repl, s). length s)" by simp
next
  fix repl :: "string \<Rightarrow> string \<Rightarrow> string" and c cs
  show "((repl, cs), (repl, c # cs)) \<in> measure (\<lambda>(repl, s). length s)" by simp
qed

text \<open>The two callbacks and the two rewriters.\<close>

definition rewrite_match :: "string \<Rightarrow> string \<Rightarrow> string" where
  "rewrite_match text g2 =
     ''['' @ text @ '']('' @ concat (replicate DEPLOYMENT_DEPTH ''../'') @
       apply_overrides (rstrip_slash g2) @ ''.md)''"

definition rewrite_camunda_docs_links :: "string \<Rightarrow> string" where
  "rewrite_camunda_docs_links content = docs_link_sub rewrite_match content"

definition landing_replace :: "string \<Rightarrow> string \<Rightarrow> string" where
  "landing_replace text g2 =
     ''['' @ text @ '']('' @ concat (replicate LANDING_PAGE_DEPTH ''../'') @
       apply_overrides (rstrip_slash g2) @ ''.md)''"

definition rewrite_landing_links :: "string \<Rightarrow> string" where
  "rewrite_landing_links content = docs_link_sub landing_replace content"

text \<open>The pattern matches somewhere in the string.\<close>

fun has_docs_link :: "string \<Rightarrow> bool" where
  "has_docs_link [] = False"
| "has_docs_link (c # cs) = (match_docs_link (c # cs) \<noteq> None \<or> has_docs_link cs)"

text \<open>
  A replacement starts like its match and goes on with a dot where the match has the
  \<^verbatim>\<open>h\<close> of \<^verbatim>\<open>http\<close> (used in the proofs only).
\<close>

definition relative_repl :: "(string \<Rightarrow> string \<Rightarrow> string) \<Rightarrow> bool" where
  "relative_repl repl = (\<forall>t p. \<exists>w. repl t p = (''['' @ t @ '']('') @ CHR ''.'' # w)"

text \<open>Two example inputs: a link whose target holds a link, and a text without a matching link.\<close>

definition ex_nested_link :: string where
  "ex_nested_link = ''[a](https://docs.camunda.io/docs/[b](https://docs.camunda.io/docs/x)''"


definition ex_plain :: string where
  "ex_plain = ''See [a](../x.md) and [b](https://example.org/docs/next/y/).''"

section \<open>Lemmas on classify_types\<close>

lemma page_of_in_keys: "page_of t \<in> set PAGE_KEYS"
  by (simp add: page_of_def PAGE_KEYS_def)

lemma initial_pages_by: "initial_pages = pages_by []"
  by (rule ext) (simp add: initial_pages_def pages_by_def PAGE_KEYS_def)

lemma classify_step_page_of: "classify_step pages t = pages_append pages (page_of t) t"
  by (simp add: classify_step_def page_of_def Let_def)

lemma classify_step_pages_by: "classify_step (pages_by pre) t = Inr (pages_by (pre @ [t]))"
proof -
  have "pages_append (pages_by pre) (page_of t) t = Inr (pages_by (pre @ [t]))"
    using page_of_in_keys [of t]
    by (auto simp: pages_append_def pages_by_def fun_eq_iff)
  then show ?thesis by (simp add: classify_step_page_of)
qed

lemma classify_loop_pages_by: "classify_loop (pages_by pre) ts = Inr (pages_by (pre @ ts))"
proof (induction ts arbitrary: pre)
  case Nil
  show ?case by simp
next
  case (Cons t ts)
  have "classify_loop (pages_by pre) (t # ts) = classify_loop (pages_by (pre @ [t])) ts"
    by (simp add: classify_step_pages_by)
  also have "\<dots> = Inr (pages_by ((pre @ [t]) @ ts))" by (rule Cons.IH)
  finally show ?case by simp
qed

lemma classify_types_pages_by: "classify_types ts = Inr (pages_by ts)"
  using classify_loop_pages_by [of "[]" ts] by (simp add: classify_types_def initial_pages_by)

lemma mset_filter_page_of:
  "(\<Sum>k\<leftarrow>PAGE_KEYS. mset (filter (\<lambda>t. page_of t = k) ts)) = mset ts"
proof (induction ts)
  case Nil
  show ?case by (simp add: PAGE_KEYS_def)
next
  case (Cons t ts)
  have "page_of t \<in> set PAGE_KEYS" by (rule page_of_in_keys)
  with Cons show ?case
    by (auto simp: PAGE_KEYS_def)
qed

lemma dom_pages_by: "dom (pages_by ts) = set PAGE_KEYS"
  by (auto simp: pages_by_def split: if_splits)

lemma bucket_pages_by:
  "bucket (pages_by ts) k = (if k \<in> set PAGE_KEYS then filter (\<lambda>t. page_of t = k) ts else [])"
  by (simp add: bucket_def pages_by_def)

lemma mset_buckets_pages_by: "(\<Sum>k\<leftarrow>PAGE_KEYS. mset (bucket (pages_by ts) k)) = mset ts"
proof -
  have "(\<Sum>k\<leftarrow>PAGE_KEYS. mset (bucket (pages_by ts) k))
        = (\<Sum>k\<leftarrow>PAGE_KEYS. mset (filter (\<lambda>t. page_of t = k) ts))"
    by (rule arg_cong [where f = sum_list]) (simp add: bucket_pages_by)
  then show ?thesis using mset_filter_page_of [of ts] by simp
qed

lemma in_bucket_pages_by: "in_bucket (pages_by ts) k t = (t \<in> set ts \<and> page_of t = k)"
  using page_of_in_keys [of t] by (auto simp: in_bucket_def bucket_pages_by)

lemma placed_in_pages_by: "t \<in> set ts \<Longrightarrow> placed_in (pages_by ts) t k = (page_of t = k)"
  by (auto simp: placed_in_def in_bucket_pages_by)

section \<open>Claims on classify_types\<close>

text \<open>
  C1. For every list of TypeItems, \<^verbatim>\<open>classify_types\<close> returns (without raising) a dict with
  exactly the six keys camunda-client, configuration, runtime, models, enums and keys; the
  six buckets together hold every input as often as the input list does (none dropped, none
  duplicated), and every type is in exactly one bucket if it is in the input and in none
  otherwise. The result is a function of the input list alone, so classifying the same
  list twice gives the same buckets: there is exactly one such result.
\<close>

theorem classify_types_total_partition:
  "\<exists>!pages. classify_types ts = Inr pages \<and>
     dom pages = {''camunda-client'', ''configuration'', ''runtime'', ''models'', ''enums'', ''keys''} \<and>
     mset (bucket pages ''camunda-client'') + mset (bucket pages ''configuration'') +
       mset (bucket pages ''runtime'') + mset (bucket pages ''models'') +
       mset (bucket pages ''enums'') + mset (bucket pages ''keys'') = mset ts \<and>
     (\<forall>t. card {k. in_bucket pages k t} = (if t \<in> set ts then 1 else 0))"
proof -
  have dom6: "dom (pages_by ts) =
      {''camunda-client'', ''configuration'', ''runtime'', ''models'', ''enums'', ''keys''}"
    by (simp add: dom_pages_by) (auto simp: PAGE_KEYS_def)
  have sum6: "mset (bucket (pages_by ts) ''camunda-client'') +
       mset (bucket (pages_by ts) ''configuration'') + mset (bucket (pages_by ts) ''runtime'') +
       mset (bucket (pages_by ts) ''models'') + mset (bucket (pages_by ts) ''enums'') +
       mset (bucket (pages_by ts) ''keys'') = mset ts"
    using mset_buckets_pages_by [of ts] by (simp add: PAGE_KEYS_def add.assoc)
  have one: "card {k. in_bucket (pages_by ts) k t} = (if t \<in> set ts then 1 else 0)" for t
  proof (cases "t \<in> set ts")
    case True
    then have "{k. in_bucket (pages_by ts) k t} = {page_of t}"
      by (auto simp: in_bucket_pages_by)
    with True show ?thesis by simp
  next
    case False
    then have "{k. in_bucket (pages_by ts) k t} = {}"
      by (auto simp: in_bucket_pages_by)
    with False show ?thesis by simp
  qed
  show ?thesis
  proof (rule ex1I [of _ "pages_by ts"])
    show "classify_types ts = Inr (pages_by ts) \<and>
      dom (pages_by ts) =
        {''camunda-client'', ''configuration'', ''runtime'', ''models'', ''enums'', ''keys''} \<and>
      mset (bucket (pages_by ts) ''camunda-client'') + mset (bucket (pages_by ts) ''configuration'') +
        mset (bucket (pages_by ts) ''runtime'') + mset (bucket (pages_by ts) ''models'') +
        mset (bucket (pages_by ts) ''enums'') + mset (bucket (pages_by ts) ''keys'') = mset ts \<and>
      (\<forall>t. card {k. in_bucket (pages_by ts) k t} = (if t \<in> set ts then 1 else 0))"
      using dom6 sum6 one by (simp add: classify_types_pages_by)
  next
    fix pages
    assume "classify_types ts = Inr pages \<and>
      dom pages = {''camunda-client'', ''configuration'', ''runtime'', ''models'', ''enums'', ''keys''} \<and>
      mset (bucket pages ''camunda-client'') + mset (bucket pages ''configuration'') +
        mset (bucket pages ''runtime'') + mset (bucket pages ''models'') +
        mset (bucket pages ''enums'') + mset (bucket pages ''keys'') = mset ts \<and>
      (\<forall>t. card {k. in_bucket pages k t} = (if t \<in> set ts then 1 else 0))"
    then show "pages = pages_by ts" by (simp add: classify_types_pages_by)
  qed
qed

text \<open>
  C2. For every TypeItem of the input, the bucket is decided by six rules, the first that
  matches winning: (a) the name is one of the three client names: camunda-client; (b) else
  the name is in the configuration set: configuration; (c) else the kind is Enum: enums;
  (d) else the kind is Struct and the name ends in Key: keys; (e) else the namespace (the
  parent when the namespace is empty) contains Runtime: runtime; (f) else models. The type
  is in that bucket and in no other, so a later rule never places a type an earlier rule
  matches: a Struct whose name ends in Key and whose namespace contains Runtime is in keys.
\<close>

theorem classify_types_first_match_wins:
  assumes "t \<in> set ts"
  shows "\<exists>pages. classify_types ts = Inr pages \<and>
     (name t \<in> {''CamundaClient'', ''Camunda'', ''CamundaServiceCollectionExtensions''}
        \<longrightarrow> placed_in pages t ''camunda-client'') \<and>
     (name t \<notin> CLIENT_NAMES \<and> name t \<in> CONFIGURATION_TYPES
        \<longrightarrow> placed_in pages t ''configuration'') \<and>
     (name t \<notin> CLIENT_NAMES \<and> name t \<notin> CONFIGURATION_TYPES \<and> type_kind t = ''Enum''
        \<longrightarrow> placed_in pages t ''enums'') \<and>
     (name t \<notin> CLIENT_NAMES \<and> name t \<notin> CONFIGURATION_TYPES \<and> type_kind t \<noteq> ''Enum'' \<and>
      type_kind t = ''Struct'' \<and> suffix ''Key'' (name t)
        \<longrightarrow> placed_in pages t ''keys'') \<and>
     (name t \<notin> CLIENT_NAMES \<and> name t \<notin> CONFIGURATION_TYPES \<and> type_kind t \<noteq> ''Enum'' \<and>
      \<not> (type_kind t = ''Struct'' \<and> suffix ''Key'' (name t)) \<and>
      sublist ''Runtime'' (if namespace t = [] then parent t else namespace t)
        \<longrightarrow> placed_in pages t ''runtime'') \<and>
     (name t \<notin> CLIENT_NAMES \<and> name t \<notin> CONFIGURATION_TYPES \<and> type_kind t \<noteq> ''Enum'' \<and>
      \<not> (type_kind t = ''Struct'' \<and> suffix ''Key'' (name t)) \<and>
      \<not> sublist ''Runtime'' (if namespace t = [] then parent t else namespace t)
        \<longrightarrow> placed_in pages t ''models'') \<and>
     (type_kind t = ''Struct'' \<and> suffix ''Key'' (name t) \<and> sublist ''Runtime'' (namespace t)
        \<longrightarrow> placed_in pages t ''keys'' \<and> \<not> in_bucket pages ''runtime'' t)"
proof -
  have ns: "ns_of t = (if namespace t = [] then parent t else namespace t)"
    by (simp add: ns_of_def)
  have key_not_listed: "suffix ''Key'' n \<Longrightarrow> n \<notin> CLIENT_NAMES \<and> n \<notin> CONFIGURATION_TYPES" for n
    by (auto simp: CLIENT_NAMES_def CONFIGURATION_TYPES_def suffix_to_prefix)
  have "(name t \<in> {''CamundaClient'', ''Camunda'', ''CamundaServiceCollectionExtensions''}
        \<longrightarrow> placed_in (pages_by ts) t ''camunda-client'')"
    using assms by (simp add: placed_in_pages_by page_of_def CLIENT_NAMES_def)
  moreover have "(name t \<notin> CLIENT_NAMES \<and> name t \<in> CONFIGURATION_TYPES
        \<longrightarrow> placed_in (pages_by ts) t ''configuration'')"
    using assms by (simp add: placed_in_pages_by page_of_def)
  moreover have "(name t \<notin> CLIENT_NAMES \<and> name t \<notin> CONFIGURATION_TYPES \<and> type_kind t = ''Enum''
        \<longrightarrow> placed_in (pages_by ts) t ''enums'')"
    using assms by (simp add: placed_in_pages_by page_of_def)
  moreover have "(name t \<notin> CLIENT_NAMES \<and> name t \<notin> CONFIGURATION_TYPES \<and> type_kind t \<noteq> ''Enum'' \<and>
      type_kind t = ''Struct'' \<and> suffix ''Key'' (name t)
        \<longrightarrow> placed_in (pages_by ts) t ''keys'')"
    using assms by (simp add: placed_in_pages_by page_of_def)
  moreover have "(name t \<notin> CLIENT_NAMES \<and> name t \<notin> CONFIGURATION_TYPES \<and> type_kind t \<noteq> ''Enum'' \<and>
      \<not> (type_kind t = ''Struct'' \<and> suffix ''Key'' (name t)) \<and>
      sublist ''Runtime'' (if namespace t = [] then parent t else namespace t)
        \<longrightarrow> placed_in (pages_by ts) t ''runtime'')"
    using assms by (simp add: placed_in_pages_by page_of_def ns)
  moreover have "(name t \<notin> CLIENT_NAMES \<and> name t \<notin> CONFIGURATION_TYPES \<and> type_kind t \<noteq> ''Enum'' \<and>
      \<not> (type_kind t = ''Struct'' \<and> suffix ''Key'' (name t)) \<and>
      \<not> sublist ''Runtime'' (if namespace t = [] then parent t else namespace t)
        \<longrightarrow> placed_in (pages_by ts) t ''models'')"
    using assms by (simp add: placed_in_pages_by page_of_def ns)
  moreover have "(type_kind t = ''Struct'' \<and> suffix ''Key'' (name t) \<and> sublist ''Runtime'' (namespace t)
        \<longrightarrow> placed_in (pages_by ts) t ''keys'' \<and> \<not> in_bucket (pages_by ts) ''runtime'' t)"
    using assms key_not_listed [of "name t"]
    by (simp add: placed_in_pages_by in_bucket_pages_by page_of_def)
  ultimately show ?thesis
    by (intro exI [of _ "pages_by ts"] conjI classify_types_pages_by)
qed

lemmas ex_type_defs =
  ex_types_def ex_client_def ex_config_def ex_enum_def ex_key_def ex_runtime_def ex_model_def
  TypeItem_default_def CLIENT_NAMES_def CONFIGURATION_TYPES_def suffix_to_prefix

theorem classify_types_first_match_wins_witness:
  "ex_key \<in> set ex_types \<and>
   (\<exists>pages. classify_types ex_types = Inr pages \<and> placed_in pages ex_client ''camunda-client'') \<and>
   (\<exists>pages. classify_types ex_types = Inr pages \<and> placed_in pages ex_config ''configuration'') \<and>
   (\<exists>pages. classify_types ex_types = Inr pages \<and> placed_in pages ex_enum ''enums'') \<and>
   (\<exists>pages. classify_types ex_types = Inr pages \<and> placed_in pages ex_key ''keys'' \<and>
      \<not> in_bucket pages ''runtime'' ex_key) \<and>
   (\<exists>pages. classify_types ex_types = Inr pages \<and> placed_in pages ex_runtime ''runtime'') \<and>
   (\<exists>pages. classify_types ex_types = Inr pages \<and> placed_in pages ex_model ''models'')"
proof -
  have 1: "ex_client \<in> set ex_types" and 2: "ex_config \<in> set ex_types"
    and 3: "ex_enum \<in> set ex_types" and 4: "ex_key \<in> set ex_types"
    and 5: "ex_runtime \<in> set ex_types" and 6: "ex_model \<in> set ex_types"
    by (simp_all add: ex_types_def)
  have "\<exists>pages. classify_types ex_types = Inr pages \<and> placed_in pages ex_client ''camunda-client''"
    using classify_types_first_match_wins [OF 1] by (simp add: ex_type_defs)
  moreover
  have "\<exists>pages. classify_types ex_types = Inr pages \<and> placed_in pages ex_config ''configuration''"
    using classify_types_first_match_wins [OF 2] by (simp add: ex_type_defs)
  moreover
  have "\<exists>pages. classify_types ex_types = Inr pages \<and> placed_in pages ex_enum ''enums''"
    using classify_types_first_match_wins [OF 3] by (simp add: ex_type_defs)
  moreover
  have "\<exists>pages. classify_types ex_types = Inr pages \<and> placed_in pages ex_key ''keys'' \<and>
      \<not> in_bucket pages ''runtime'' ex_key"
    using classify_types_first_match_wins [OF 4] by (simp add: ex_type_defs sublist_code)
  moreover
  have "\<exists>pages. classify_types ex_types = Inr pages \<and> placed_in pages ex_runtime ''runtime''"
    using classify_types_first_match_wins [OF 5] by (simp add: ex_type_defs sublist_code)
  moreover
  have "\<exists>pages. classify_types ex_types = Inr pages \<and> placed_in pages ex_model ''models''"
    using classify_types_first_match_wins [OF 6] by (simp add: ex_type_defs sublist_code)
  ultimately show ?thesis using 4 by blast
qed

section \<open>Claims on _method_group\<close>

lemma group_loop_first:
  "i < length tab \<Longrightarrow> sublist (fst (tab ! i)) base \<Longrightarrow> \<forall>j<i. \<not> sublist (fst (tab ! j)) base
   \<Longrightarrow> group_loop tab base = snd (tab ! i)"
proof (induction tab base arbitrary: i rule: group_loop.induct)
  case (1 base)
  then show ?case by simp
next
  case (2 pfx grp rest base)
  show ?case
  proof (cases i)
    case 0
    with 2 show ?thesis by simp
  next
    case (Suc i')
    from 2(4) Suc have "\<not> sublist pfx base" by fastforce
    moreover have "group_loop rest base = snd (rest ! i')"
      using 2 Suc calculation by (intro "2.IH") fastforce+
    ultimately show ?thesis using Suc by simp
  qed
qed

lemma group_loop_none:
  "\<forall>e \<in> set tab. \<not> sublist (fst e) base \<Longrightarrow> group_loop tab base = ''Other''"
  by (induction tab base rule: group_loop.induct) auto

text \<open>
  C8, as stated, fails: the lookup tests containment, not a prefix. For
  \<^verbatim>\<open>CreateProcessInstanceAsync\<close> no key of the table is a prefix of the stripped name, so the
  lookup by prefix gives Other, and \<^verbatim>\<open>_method_group\<close> returns Process Instances.
\<close>

theorem method_group_prefix_counterexample:
  "method_group ''CreateProcessInstanceAsync'' = ''Process Instances'' \<and>
   method_group_by_prefix ''CreateProcessInstanceAsync'' = ''Other''"
  by (simp add: method_group_def method_group_by_prefix_def strip_async_def GROUP_PREFIXES_def
       suffix_to_prefix sublist_code)

text \<open>
  C8, amended. For every method name, \<^verbatim>\<open>_method_group\<close> strips a final \<^verbatim>\<open>Async\<close> (a name
  that ends neither in \<^verbatim>\<open>Async\<close> nor in \<^verbatim>\<open>Async\<close> and a newline is kept as it is) and returns
  the label of the first entry of the table whose key occurs in the stripped name as a
  substring, at any position; it returns Other when no key occurs in it.
\<close>

theorem method_group_first_substring:
  "(nm = b @ ''Async'' \<longrightarrow> strip_async nm = b) \<and>
   (\<not> suffix ''Async'' nm \<and> \<not> suffix ''Async\<newline>'' nm \<longrightarrow> strip_async nm = nm) \<and>
   (i < length GROUP_PREFIXES \<and> sublist (fst (GROUP_PREFIXES ! i)) (strip_async nm) \<and>
    (\<forall>j<i. \<not> sublist (fst (GROUP_PREFIXES ! j)) (strip_async nm))
      \<longrightarrow> method_group nm = snd (GROUP_PREFIXES ! i)) \<and>
   ((\<forall>e \<in> set GROUP_PREFIXES. \<not> sublist (fst e) (strip_async nm))
      \<longrightarrow> method_group nm = ''Other'')"
proof (intro conjI impI)
  assume "nm = b @ ''Async''"
  then show "strip_async nm = b" by (simp add: strip_async_def suffix_def)
next
  assume "\<not> suffix ''Async'' nm \<and> \<not> suffix ''Async\<newline>'' nm"
  then show "strip_async nm = nm" by (simp add: strip_async_def)
next
  assume "i < length GROUP_PREFIXES \<and> sublist (fst (GROUP_PREFIXES ! i)) (strip_async nm) \<and>
    (\<forall>j<i. \<not> sublist (fst (GROUP_PREFIXES ! j)) (strip_async nm))"
  then show "method_group nm = snd (GROUP_PREFIXES ! i)"
    unfolding method_group_def by (intro group_loop_first) blast+
next
  assume "\<forall>e \<in> set GROUP_PREFIXES. \<not> sublist (fst e) (strip_async nm)"
  then show "method_group nm = ''Other''"
    unfolding method_group_def by (rule group_loop_none)
qed

theorem method_group_first_substring_witness:
  "''SearchDecisionInstancesAsync'' = ''SearchDecisionInstances'' @ ''Async'' \<and>
   strip_async ''SearchDecisionInstancesAsync'' = ''SearchDecisionInstances'' \<and>
   GROUP_PREFIXES ! 6 = (''DecisionInstance'', ''Decision Instances'') \<and>
   sublist ''DecisionInstance'' ''SearchDecisionInstances'' \<and>
   \<not> prefix ''DecisionInstance'' ''SearchDecisionInstances'' \<and>
   method_group ''SearchDecisionInstancesAsync'' = ''Decision Instances'' \<and>
   strip_async ''Ping'' = ''Ping'' \<and>
   method_group ''Ping'' = ''Other''"
proof -
  have s1: "strip_async ''SearchDecisionInstancesAsync'' = ''SearchDecisionInstances''"
    using method_group_first_substring
      [of "''SearchDecisionInstancesAsync''" "''SearchDecisionInstances''"]
    by simp
  have e6: "GROUP_PREFIXES ! 6 = (''DecisionInstance'', ''Decision Instances'')"
    by (simp add: GROUP_PREFIXES_def)
  have before: "\<forall>j<6. \<not> sublist (fst (GROUP_PREFIXES ! j)) ''SearchDecisionInstances''"
  proof (intro allI impI)
    fix j :: nat
    assume "j < 6"
    then consider "j = 0" | "j = 1" | "j = 2" | "j = 3" | "j = 4" | "j = 5" by linarith
    then show "\<not> sublist (fst (GROUP_PREFIXES ! j)) ''SearchDecisionInstances''"
      by cases (simp_all add: GROUP_PREFIXES_def sublist_code)
  qed
  have here: "sublist ''DecisionInstance'' ''SearchDecisionInstances''"
    by (simp add: sublist_code)
  have g1: "method_group ''SearchDecisionInstancesAsync'' = ''Decision Instances''"
    using method_group_first_substring [of "''SearchDecisionInstancesAsync''" _ 6] s1 e6 before here
    by (simp add: GROUP_PREFIXES_def)
  have s2: "strip_async ''Ping'' = ''Ping''"
    using method_group_first_substring [of "''Ping''"] by (simp add: suffix_to_prefix)
  have none: "\<forall>e \<in> set GROUP_PREFIXES. \<not> sublist (fst e) ''Ping''"
    by (simp add: GROUP_PREFIXES_def sublist_code)
  have g2: "method_group ''Ping'' = ''Other''"
    using method_group_first_substring [of "''Ping''"] s2 none by simp
  from s1 e6 here g1 s2 g2 show ?thesis by simp
qed

section \<open>Claims on _short_type\<close>

lemma short_type_plain: "short_type ''Camunda.Orchestration.Sdk.JobResult'' = ''JobResult''"
  by (simp add: rsplit_last_def Let_def)

lemma short_type_one_argument:
  "short_type ''System.Collections.Generic.List{System.String}'' = ''List<String>''"
  by (simp add: rsplit_last_def Let_def)

lemma short_type_nested:
  "short_type ''System.Threading.Tasks.Task{System.Collections.Generic.List{System.String}}''
     = ''Task<String>}''"
  by (simp add: rsplit_last_def Let_def)

text \<open>
  C7. The claim asks for every type argument of a generic to be shortened, also in a
  generic of several arguments such as \<^verbatim>\<open>Dictionary{System.String,My.Type}\<close>. The code takes
  the text between the braces as one name and keeps what follows its last dot, so the
  arguments before the last one are lost: the result is \<^verbatim>\<open>Dictionary<Type>\<close>, not
  \<^verbatim>\<open>Dictionary<String,Type>\<close>.
\<close>

theorem short_type_drops_type_arguments:
  "short_type ''System.Collections.Generic.Dictionary{System.String,My.Type}''
     = ''Dictionary<Type>''"
  by (simp add: rsplit_last_def Let_def)

section \<open>Claims on prune\<close>








section \<open>Lemmas on the example extractor\<close>

declare split_sections.simps [simp del]

lemma strip_prefix_Some: "strip_prefix p s = Some r \<longleftrightarrow> s = p @ r"
  by (induction p s rule: strip_prefix.induct) auto

lemma not_word_slash: "\<not> is_word CHR ''/''"
  by (simp add: is_word_def)

lemma match_close_not_open: "match_close s = Some n \<Longrightarrow> match_open s = None"
  by (auto simp: match_close_def match_open_def strip_prefix_Some not_word_slash
      split: option.splits if_splits)

lemma region_step_open:
  "match_open (strip l) = Some b \<Longrightarrow> region_step st l = st\<lparr>current_tag := Some b, lines := []\<rparr>"
  by (simp add: region_step_def)

lemma region_step_close:
  "match_close (strip l) = Some a \<Longrightarrow> current_tag st = Some a \<Longrightarrow>
   region_step st l = st\<lparr>regions := (regions st)(a \<mapsto> dedent (join_nl (lines st))),
     current_tag := None, lines := []\<rparr>"
  by (simp add: region_step_def match_close_not_open)

lemma region_step_inside:
  "match_open (strip l) = None \<Longrightarrow> match_close (strip l) \<noteq> Some a \<Longrightarrow> current_tag st = Some a \<Longrightarrow>
   region_step st l = st\<lparr>lines := lines st @ [l]\<rparr>"
  by (auto simp: region_step_def)

lemma foldl_region_step_inside:
  "\<forall>l \<in> set body. match_open (strip l) = None \<and> match_close (strip l) \<noteq> Some a \<Longrightarrow>
   current_tag st = Some a \<Longrightarrow>
   foldl region_step st body = st\<lparr>lines := lines st @ body\<rparr>"
proof (induction body arbitrary: st)
  case Nil
  show ?case by simp
next
  case (Cons l body)
  have step: "region_step st l = st\<lparr>lines := lines st @ [l]\<rparr>"
    using Cons.prems by (intro region_step_inside) auto
  have "foldl region_step (st\<lparr>lines := lines st @ [l]\<rparr>) body
        = (st\<lparr>lines := lines st @ [l]\<rparr>)\<lparr>lines := lines (st\<lparr>lines := lines st @ [l]\<rparr>) @ body\<rparr>"
    using Cons.prems by (intro Cons.IH) auto
  with step show ?case by simp
qed

lemma region_step_keeps:
  assumes "match_close (strip l) \<noteq> Some a"
  shows "regions (region_step st l) a = regions st a"
proof (cases "match_open (strip l)")
  case (Some b)
  then show ?thesis by (simp add: region_step_open)
next
  case None
  show ?thesis
  proof (cases "match_close (strip l) \<noteq> None \<and> current_tag st = match_close (strip l)")
    case True
    then obtain c where c: "match_close (strip l) = Some c" "current_tag st = Some c" by auto
    with assms have "c \<noteq> a" by auto
    with c show ?thesis by (simp add: region_step_close)
  next
    case False
    then have eq: "(match_close (strip l) \<noteq> None \<and> current_tag st = match_close (strip l)) = False"
      by blast
    have "region_step st l = (if current_tag st \<noteq> None then st\<lparr>lines := lines st @ [l]\<rparr> else st)"
      unfolding region_step_def Let_def None by (simp only: eq option.case if_False)
    then show ?thesis by simp
  qed
qed

lemma foldl_region_step_keeps:
  "\<forall>l \<in> set post. match_close (strip l) \<noteq> Some a \<Longrightarrow>
   regions (foldl region_step st post) a = regions st a"
  by (induction post arbitrary: st) (auto simp: region_step_keeps)

lemma region_closed:
  assumes "match_open (strip opn) = Some a"
    and "\<forall>l \<in> set body. match_open (strip l) = None \<and> match_close (strip l) \<noteq> Some a"
    and "match_close (strip cls) = Some a"
  shows "foldl region_step st (opn # body @ [cls])
     = st\<lparr>regions := (regions st)(a \<mapsto> dedent (join_nl body)), current_tag := None, lines := []\<rparr>"
proof -
  let ?s1 = "st\<lparr>current_tag := Some a, lines := []\<rparr>"
  let ?s2 = "st\<lparr>current_tag := Some a, lines := body\<rparr>"
  have 1: "region_step st opn = ?s1" using assms(1) by (rule region_step_open)
  have 2: "foldl region_step ?s1 body = ?s2"
    using foldl_region_step_inside [OF assms(2), of ?s1] by simp
  have 3: "region_step ?s2 cls
      = st\<lparr>regions := (regions st)(a \<mapsto> dedent (join_nl body)), current_tag := None, lines := []\<rparr>"
    using region_step_close [OF assms(3), of ?s2] by simp
  show ?thesis by (simp add: 1 2 3)
qed

lemma region_reopened:
  assumes "match_open (strip o1) = Some a"
    and "\<forall>l \<in> set body1. match_open (strip l) = None \<and> match_close (strip l) \<noteq> Some a"
    and "match_open (strip o2) = Some b"
  shows "foldl region_step st (o1 # body1 @ [o2]) = st\<lparr>current_tag := Some b, lines := []\<rparr>"
proof -
  let ?s1 = "st\<lparr>current_tag := Some a, lines := []\<rparr>"
  let ?s2 = "st\<lparr>current_tag := Some a, lines := body1\<rparr>"
  have 1: "region_step st o1 = ?s1" using assms(1) by (rule region_step_open)
  have 2: "foldl region_step ?s1 body1 = ?s2"
    using foldl_region_step_inside [OF assms(2), of ?s1] by simp
  have 3: "region_step ?s2 o2 = st\<lparr>current_tag := Some b, lines := []\<rparr>"
    using region_step_open [OF assms(3), of ?s2] by simp
  show ?thesis by (simp add: 1 2 3)
qed


lemma overwrite_step_ref:
  "strip s \<noteq> [] \<Longrightarrow> search_uid True (strip s) = None \<Longrightarrow> search_code_ref (strip s) = Some r \<Longrightarrow>
   u \<noteq> [] \<Longrightarrow>
   overwrite_step R (m, Some u) s = ((case R r of None \<Rightarrow> m | Some ex \<Rightarrow> m(u \<mapsto> ex)), None)"
  by (simp add: overwrite_step_def split: option.splits)



lemma load_all_regions_last:
  "load_all_regions (before @ [text]) n = (case parse_region_tags text n of
      None \<Rightarrow> load_all_regions before n | Some ex \<Rightarrow> Some ex)"
proof -
  have "load_all_regions (before @ [text]) = load_all_regions before ++ parse_region_tags text"
    by (simp add: load_all_regions_def)
  then show ?thesis by (simp add: map_add_def)
qed

lemma parse_region_tags_closed:
  assumes "splitlines text = pre @ opn # body @ cls # post"
    and "match_open (strip opn) = Some n"
    and "\<forall>l \<in> set body. match_open (strip l) = None \<and> match_close (strip l) \<noteq> Some n"
    and "match_close (strip cls) = Some n"
    and "\<forall>l \<in> set post. match_close (strip l) \<noteq> Some n"
  shows "parse_region_tags text n = Some (dedent (join_nl body))"
proof -
  let ?s0 = "foldl region_step region_init pre"
  have split: "splitlines text = pre @ (opn # body @ [cls]) @ post"
    using assms(1) by simp
  have "regions (foldl region_step (foldl region_step ?s0 (opn # body @ [cls])) post) n
      = regions (foldl region_step ?s0 (opn # body @ [cls])) n"
    using assms(5) by (rule foldl_region_step_keeps)
  also have "\<dots> = Some (dedent (join_nl body))"
    by (simp only: region_closed [OF assms(2,3,4)]) simp
  finally show ?thesis
    unfolding parse_region_tags_def split foldl_append .
qed

lemmas str_eval = is_space_def is_word_def is_linebreak_def is_blank_def strip_def match_open_def
  match_close_def splitlines_def split_on_def dedent_def Let_def match_uid_def ref_tail_def match_code_ref_def
  match_rule_def

section \<open>Claims on the example extractor\<close>

text \<open>
  C4, as stated, fails when a region name is used twice in a file: the dict keeps the region
  closed last. In \<^verbatim>\<open>ex_dup\<close> the first region A, with the one line x between its markers and no
  start marker in between, is not what A is mapped to.
\<close>

theorem region_content_counterexample:
  "splitlines ex_dup = [] @ ''// <A>'' # [''x''] @ ''// </A>'' # [''// <A>'', ''y'', ''// </A>''] \<and>
   match_open (strip ''// <A>'') = Some ''A'' \<and>
   match_open (strip ''x'') = None \<and>
   match_close (strip ''// </A>'') = Some ''A'' \<and>
   dedent (join_nl [''x'']) = ''x'' \<and>
   parse_region_tags ex_dup ''A'' = Some ''y''"
  by (simp add: ex_dup_def parse_region_tags_def region_init_def region_step_def str_eval)

text \<open>
  C4, amended. For every example file and every region whose start marker is followed by
  its close marker of the same name, with no start marker and no close marker of that name
  in between, and after which no close marker of that name comes again in the file,
  \<^verbatim>\<open>parse_region_tags\<close> maps the name to the lines strictly between the two markers, joined
  with newlines and dedented. When that file is the last example file read, a code reference
  to the region gives the current uid exactly this text.
\<close>

theorem region_content_last_wins:
  assumes "splitlines text = pre @ opn # body @ cls # post"
    and "match_open (strip opn) = Some n"
    and "\<forall>l \<in> set body. match_open (strip l) = None \<and> match_close (strip l) \<noteq> Some n"
    and "match_close (strip cls) = Some n"
    and "\<forall>l \<in> set post. match_close (strip l) \<noteq> Some n"
  shows "parse_region_tags text n = Some (dedent (join_nl body)) \<and>
    (strip s \<noteq> [] \<and> search_uid True (strip s) = None \<and> search_code_ref (strip s) = Some n \<and>
     u \<noteq> []
       \<longrightarrow> fst (overwrite_step (load_all_regions (before @ [text])) (m, Some u) s) u
            = Some (dedent (join_nl body)))"
proof -
  have p: "parse_region_tags text n = Some (dedent (join_nl body))"
    using assms by (rule parse_region_tags_closed)
  then have "load_all_regions (before @ [text]) n = Some (dedent (join_nl body))"
    by (simp add: load_all_regions_last)
  then show ?thesis using p by (auto simp: overwrite_step_ref)
qed

theorem region_content_last_wins_witness:
  "splitlines ex_cs = [''class T {'', ''  // <Old>'', ''  int y;''] @ ''  // <Sample>'' #
     [''    var x = 1;'', ''      x++;''] @ ''  // </Sample>'' # [''}''] \<and>
   match_open (strip ''  // <Sample>'') = Some ''Sample'' \<and>
   match_close (strip ''  // </Sample>'') = Some ''Sample'' \<and>
   parse_region_tags ex_cs ''Sample'' = Some ''var x = 1;\<newline>  x++;'' \<and>
   fst (overwrite_step (load_all_regions ([] @ [ex_cs])) (Map.empty, Some ''M:Foo.Bar'')
      ''[!code-csharp[](../examples/E.cs#Sample)]'') ''M:Foo.Bar'' = Some ''var x = 1;\<newline>  x++;''"
proof -
  have 1: "splitlines ex_cs = [''class T {'', ''  // <Old>'', ''  int y;''] @ ''  // <Sample>'' #
     [''    var x = 1;'', ''      x++;''] @ ''  // </Sample>'' # [''}'']"
    by (simp add: ex_cs_def str_eval)
  have 2: "match_open (strip ''  // <Sample>'') = Some ''Sample''" by (simp add: str_eval)
  have 3: "\<forall>l \<in> set [''    var x = 1;'', ''      x++;''].
      match_open (strip l) = None \<and> match_close (strip l) \<noteq> Some ''Sample''"
    by (simp add: str_eval)
  have 4: "match_close (strip ''  // </Sample>'') = Some ''Sample''" by (simp add: str_eval)
  have 5: "\<forall>l \<in> set [''}'']. match_close (strip l) \<noteq> Some ''Sample''" by (simp add: str_eval)
  have 6: "dedent (join_nl [''    var x = 1;'', ''      x++;'']) = ''var x = 1;\<newline>  x++;''"
    by (simp add: str_eval)
  have 7: "strip ''[!code-csharp[](../examples/E.cs#Sample)]'' \<noteq> [] \<and>
     search_uid True (strip ''[!code-csharp[](../examples/E.cs#Sample)]'') = None \<and>
     search_code_ref (strip ''[!code-csharp[](../examples/E.cs#Sample)]'') = Some ''Sample'' \<and>
     ''M:Foo.Bar'' \<noteq> []"
    by (simp add: str_eval)
  have 8: "parse_region_tags ex_cs ''Sample'' = Some (dedent (join_nl [''    var x = 1;'', ''      x++;''])) \<and>
     fst (overwrite_step (load_all_regions ([] @ [ex_cs])) (Map.empty, Some ''M:Foo.Bar'')
      ''[!code-csharp[](../examples/E.cs#Sample)]'') ''M:Foo.Bar''
       = Some (dedent (join_nl [''    var x = 1;'', ''      x++;'']))"
    using region_content_last_wins [OF 1 2 3 4 5, of "''[!code-csharp[](../examples/E.cs#Sample)]''"
      "''M:Foo.Bar''" "[]" Map.empty] 7 by blast
  show ?thesis using 1 2 4 8 [unfolded 6] by (elim conjE) (intro conjI; assumption)
qed

text \<open>
  C5. Whatever the state, a start marker read while a region is open leaves the regions
  recorded so far as they are, makes its own name the open region and empties the
  accumulated lines. So after a start marker, lines and a second start marker, the state is
  that of the second marker read alone; the region it opens is recorded at its close marker
  with its own lines only, and the unclosed region has left no entry. The loop is a total
  function of the lines: nothing raises.
\<close>

theorem region_reopen_discards:
  "(current_tag st = Some a \<and> match_open (strip l) = Some b
      \<longrightarrow> region_step st l = st\<lparr>current_tag := Some b, lines := []\<rparr>) \<and>
   (match_open (strip o1) = Some a \<and>
    (\<forall>l \<in> set body1. match_open (strip l) = None \<and> match_close (strip l) \<noteq> Some a) \<and>
    match_open (strip o2) = Some b \<and>
    (\<forall>l \<in> set body2. match_open (strip l) = None \<and> match_close (strip l) \<noteq> Some b) \<and>
    match_close (strip c2) = Some b
      \<longrightarrow> foldl region_step st (o1 # body1 @ [o2]) = st\<lparr>current_tag := Some b, lines := []\<rparr> \<and>
          foldl region_step st (o1 # body1 @ o2 # body2 @ [c2])
            = st\<lparr>regions := (regions st)(b \<mapsto> dedent (join_nl body2)), current_tag := None,
                 lines := []\<rparr>)"
proof (intro conjI impI)
  assume "current_tag st = Some a \<and> match_open (strip l) = Some b"
  then show "region_step st l = st\<lparr>current_tag := Some b, lines := []\<rparr>"
    by (simp add: region_step_open)
next
  assume h: "match_open (strip o1) = Some a \<and>
    (\<forall>l \<in> set body1. match_open (strip l) = None \<and> match_close (strip l) \<noteq> Some a) \<and>
    match_open (strip o2) = Some b \<and>
    (\<forall>l \<in> set body2. match_open (strip l) = None \<and> match_close (strip l) \<noteq> Some b) \<and>
    match_close (strip c2) = Some b"
  then show 1: "foldl region_step st (o1 # body1 @ [o2]) = st\<lparr>current_tag := Some b, lines := []\<rparr>"
    by (intro region_reopened) blast+
  have e: "o1 # body1 @ o2 # body2 @ [c2] = (o1 # body1) @ (o2 # body2 @ [c2])" by simp
  let ?s2 = "st\<lparr>current_tag := Some a, lines := body1\<rparr>"
  have s2: "foldl region_step st (o1 # body1) = ?s2"
    using h foldl_region_step_inside [of body1 a "st\<lparr>current_tag := Some a, lines := []\<rparr>"]
    by (simp add: region_step_open)
  have "foldl region_step ?s2 (o2 # body2 @ [c2])
      = ?s2\<lparr>regions := (regions ?s2)(b \<mapsto> dedent (join_nl body2)), current_tag := None, lines := []\<rparr>"
    using h by (intro region_closed) blast+
  then have "foldl region_step ?s2 (o2 # body2 @ [c2])
      = st\<lparr>regions := (regions st)(b \<mapsto> dedent (join_nl body2)), current_tag := None, lines := []\<rparr>"
    by simp
  then show "foldl region_step st (o1 # body1 @ o2 # body2 @ [c2])
      = st\<lparr>regions := (regions st)(b \<mapsto> dedent (join_nl body2)), current_tag := None, lines := []\<rparr>"
    unfolding e foldl_append s2 .
qed

theorem region_reopen_discards_witness:
  "match_open (strip ''// <Old>'') = Some ''Old'' \<and>
   match_open (strip ''// <Sample>'') = Some ''Sample'' \<and>
   match_close (strip ''// </Sample>'') = Some ''Sample'' \<and>
   region_step \<lparr>regions = Map.empty, current_tag = Some ''Old'', lines = [''  int y;'']\<rparr> ''// <Sample>''
     = \<lparr>regions = Map.empty, current_tag = Some ''Sample'', lines = []\<rparr> \<and>
   foldl region_step region_init (''// <Old>'' # [''  int y;''] @ [''// <Sample>''])
     = region_init\<lparr>current_tag := Some ''Sample'', lines := []\<rparr> \<and>
   foldl region_step region_init
       (''// <Old>'' # [''  int y;''] @ ''// <Sample>'' # [''  var x = 1;''] @ [''// </Sample>''])
     = region_init\<lparr>regions := (regions region_init)(''Sample'' \<mapsto> ''var x = 1;''),
         current_tag := None, lines := []\<rparr>"
proof -
  have 1: "match_open (strip ''// <Old>'') = Some ''Old''" by (simp add: str_eval)
  have 2: "\<forall>l \<in> set [''  int y;'']. match_open (strip l) = None \<and> match_close (strip l) \<noteq> Some ''Old''"
    by (simp add: str_eval)
  have 3: "match_open (strip ''// <Sample>'') = Some ''Sample''" by (simp add: str_eval)
  have 4: "\<forall>l \<in> set [''  var x = 1;''].
      match_open (strip l) = None \<and> match_close (strip l) \<noteq> Some ''Sample''"
    by (simp add: str_eval)
  have 5: "match_close (strip ''// </Sample>'') = Some ''Sample''" by (simp add: str_eval)
  have 6: "dedent (join_nl [''  var x = 1;'']) = ''var x = 1;''" by (simp add: str_eval)
  have a: "region_step \<lparr>regions = Map.empty, current_tag = Some ''Old'', lines = [''  int y;'']\<rparr>
      ''// <Sample>'' = \<lparr>regions = Map.empty, current_tag = Some ''Sample'', lines = []\<rparr>"
    using region_reopen_discards [of "\<lparr>regions = Map.empty, current_tag = Some ''Old'',
      lines = [''  int y;'']\<rparr>" "''Old''" "''// <Sample>''" "''Sample''"] 3
    by simp
  have b: "foldl region_step region_init (''// <Old>'' # [''  int y;''] @ [''// <Sample>''])
       = region_init\<lparr>current_tag := Some ''Sample'', lines := []\<rparr> \<and>
     foldl region_step region_init
       (''// <Old>'' # [''  int y;''] @ ''// <Sample>'' # [''  var x = 1;''] @ [''// </Sample>''])
       = region_init\<lparr>regions := (regions region_init)(''Sample'' \<mapsto> dedent (join_nl [''  var x = 1;''])),
           current_tag := None, lines := []\<rparr>"
    using region_reopen_discards [of region_init "''Old''" "''// <Old>''" "''Sample''" "''// <Old>''"
      "[''  int y;'']" "''// <Sample>''" "[''  var x = 1;'']" "''// </Sample>''"] 1 2 3 4 5
    by blast
  show ?thesis using 1 3 5 a b [unfolded 6] by (elim conjE) (intro conjI; assumption)
qed



section \<open>Claims on inject_tech_preview_banner\<close>


text \<open>
  For the same reason the banner does not always occur once more in the output than in the
  input: behind a line that is \<^verbatim>\<open>#\<close> alone, a banner already there is cut in two by the new one.
\<close>

lemma inject_banner_count_unchanged:
  "count_occurrences TECH_PREVIEW_BANNER (''#'' @ TECH_PREVIEW_BANNER) = 1 \<and>
   count_occurrences TECH_PREVIEW_BANNER
     (inject_tech_preview_banner (''#'' @ TECH_PREVIEW_BANNER)) = 1"
  by (simp add: inject_tech_preview_banner_def match_heading_def is_space_def Let_def
      TECH_PREVIEW_BANNER_def)

section \<open>Lemmas on the link rewriter\<close>

declare str_replace.simps [simp del]
declare docs_link_sub.simps [simp del]

lemma match_docs_link_shape:
  assumes "match_docs_link s = Some (t, p, rest)"
  shows "\<exists>mid. s = (''['' @ t @ '']('') @ CHR ''h'' # mid"
proof -
  from assms obtain r r2 where r: "s = ''['' @ r"
    and r2: "dropWhile (\<lambda>c. c \<noteq> CHR '']'') r = ''](http'' @ r2"
    and t: "t = takeWhile (\<lambda>c. c \<noteq> CHR '']'') r"
    by (auto simp: match_docs_link_def strip_prefix_Some split: option.splits)
  have "r = t @ ''](http'' @ r2"
    using takeWhile_dropWhile_id [of "\<lambda>c. c \<noteq> CHR '']''" r] unfolding r2 t by simp
  with r show ?thesis by simp
qed

lemma docs_link_sub_match:
  "match_docs_link (c # cs) = Some (t, p, rest) \<Longrightarrow>
   docs_link_sub repl (c # cs) = repl t p @ docs_link_sub repl rest"
  by (simp add: docs_link_sub.simps)

lemma docs_link_sub_no_match:
  "match_docs_link (c # cs) = None \<Longrightarrow> docs_link_sub repl (c # cs) = c # docs_link_sub repl cs"
  by (simp add: docs_link_sub.simps)

lemma relative_rewrite_match: "relative_repl rewrite_match"
  by (simp add: relative_repl_def rewrite_match_def DEPLOYMENT_DEPTH_def numeral_3_eq_3)

lemma relative_landing_replace: "relative_repl landing_replace"
  by (simp add: relative_repl_def landing_replace_def LANDING_PAGE_DEPTH_def numeral_2_eq_2)

lemma docs_link_sub_fixpoint:
  assumes "relative_repl repl"
  shows "docs_link_sub repl s = s \<longleftrightarrow> \<not> has_docs_link s"
  using assms
proof (induction repl s rule: docs_link_sub.induct)
  case (1 repl)
  show ?case by (simp add: docs_link_sub.simps)
next
  case (2 repl c cs)
  show ?case
  proof (cases "match_docs_link (c # cs)")
    case None
    with 2 show ?thesis by (simp add: docs_link_sub_no_match)
  next
    case (Some m)
    obtain t p rest where m: "m = (t, p, rest)" by (cases m) auto
    from Some m obtain mid where s: "c # cs = (''['' @ t @ '']('') @ CHR ''h'' # mid"
      using match_docs_link_shape by blast
    from "2.prems" [unfolded relative_repl_def, rule_format, of t p]
    obtain w where o: "repl t p = (''['' @ t @ '']('') @ CHR ''.'' # w" ..
    have "docs_link_sub repl (c # cs) = (''['' @ t @ '']('') @ CHR ''.'' # (w @ docs_link_sub repl rest)"
      using Some m o by (simp add: docs_link_sub_match)
    then have "docs_link_sub repl (c # cs) \<noteq> c # cs"
      unfolding s by (simp only: append_same_eq same_append_eq) simp
    with Some show ?thesis by simp
  qed
qed

lemma match_docs_link_next:
  assumes "CHR '']'' \<notin> set t" and "CHR '')'' \<notin> set p" and "CHR 0x0A \<notin> set p"
  shows "match_docs_link (''['' @ t @ ''](https://docs.camunda.io/docs/next/'' @ p @ '')'' @ rest)
         = Some (t, p, rest)"
proof -
  have t1: "takeWhile (\<lambda>c. c \<noteq> CHR '']'') (t @ CHR '']'' # r) = t" for r
    using assms(1) by (induction t) auto
  have t2: "dropWhile (\<lambda>c. c \<noteq> CHR '']'') (t @ CHR '']'' # r) = CHR '']'' # r" for r
    using assms(1) by (induction t) auto
  have p1: "takeWhile in_path (p @ CHR '')'' # r) = p" for r
    using assms(2,3) by (induction p) (auto simp: in_path_def)
  have p2: "dropWhile in_path (p @ CHR '')'' # r) = CHR '')'' # r" for r
    using assms(2,3) by (induction p) (auto simp: in_path_def)
  show ?thesis
    by (simp add: match_docs_link_def optional_def t1 t2 p1 p2)
qed

lemma rstrip_slash_trailing:
  assumes "q = [] \<or> last q \<noteq> CHR ''/''"
  shows "rstrip_slash (q @ replicate n CHR ''/'') = q"
proof -
  have "dropWhile (\<lambda>c. c = CHR ''/'') (replicate n CHR ''/'' @ rev q) = rev q"
  proof (cases q rule: rev_cases)
    case Nil
    then show ?thesis by (induction n) auto
  next
    case (snoc q' a)
    with assms have "a \<noteq> CHR ''/''" by simp
    with snoc show ?thesis by (induction n) auto
  qed
  then show ?thesis by (simp add: rstrip_slash_def)
qed

lemmas link_eval = docs_link_sub.simps match_docs_link_def optional_def in_path_def
  rewrite_camunda_docs_links_def rewrite_landing_links_def rewrite_match_def landing_replace_def
  DEPLOYMENT_DEPTH_def LANDING_PAGE_DEPTH_def apply_overrides_def URL_PATH_OVERRIDES_def
  rstrip_slash_def str_replace.simps numeral_3_eq_3 numeral_2_eq_2

section \<open>Claims on the link rewriter\<close>

text \<open>
  C3, as stated, fails in its idempotence: when the target of a matched link itself holds a
  matching link, the inner link is in the output of the first pass and the second pass
  rewrites it.
\<close>

theorem docs_links_idempotence_counterexample:
  "rewrite_camunda_docs_links ex_nested_link
     = ''[a](../../../[b](https://docs.camunda.io/docs/x.md)'' \<and>
   rewrite_camunda_docs_links (rewrite_camunda_docs_links ex_nested_link)
     = ''[a](../../../[b](../../../x.md.md)''"
proof -
  have 1: "rewrite_camunda_docs_links ex_nested_link
      = ''[a](../../../[b](https://docs.camunda.io/docs/x.md)''"
    by (simp add: ex_nested_link_def link_eval)
  have 2: "rewrite_camunda_docs_links ''[a](../../../[b](https://docs.camunda.io/docs/x.md)''
      = ''[a](../../../[b](../../../x.md.md)''"
    by (simp add: link_eval)
  show ?thesis unfolding 1 2 by simp
qed

text \<open>
  C3, amended. Both rewriters return the input unchanged exactly when the pattern matches
  nowhere in it, so that applying one twice equals applying it once exactly when its first
  output holds no matching link. Going from the left, a link
  \<^verbatim>\<open>[text](https://docs.camunda.io/docs/next/path)\<close>, with no closing bracket in the text and
  no closing parenthesis or newline in the path, becomes \<^verbatim>\<open>[text](../../../path'.md)\<close> at
  reference-page depth and \<^verbatim>\<open>[text](../../path'.md)\<close> at landing-page depth, where \<^verbatim>\<open>path'\<close>
  is the path without its trailing slashes and with every \<^verbatim>\<open>camunda-api-rest\<close> replaced by
  \<^verbatim>\<open>orchestration-cluster-api-rest\<close>; the text is kept, and the rewriting goes on behind the
  link. A character at which the pattern does not match is copied.
\<close>

theorem docs_links_rewritten:
  "(rewrite_camunda_docs_links x = x \<longleftrightarrow> \<not> has_docs_link x) \<and>
   (rewrite_landing_links x = x \<longleftrightarrow> \<not> has_docs_link x) \<and>
   (rewrite_camunda_docs_links (rewrite_camunda_docs_links x) = rewrite_camunda_docs_links x
      \<longleftrightarrow> \<not> has_docs_link (rewrite_camunda_docs_links x)) \<and>
   (rewrite_landing_links (rewrite_landing_links x) = rewrite_landing_links x
      \<longleftrightarrow> \<not> has_docs_link (rewrite_landing_links x)) \<and>
   (CHR '']'' \<notin> set t \<and> CHR '')'' \<notin> set p \<and> CHR 0x0A \<notin> set p
      \<longrightarrow> rewrite_camunda_docs_links
            (''['' @ t @ ''](https://docs.camunda.io/docs/next/'' @ p @ '')'' @ rest)
          = ''['' @ t @ ''](../../../'' @ apply_overrides (rstrip_slash p) @ ''.md)'' @
              rewrite_camunda_docs_links rest \<and>
          rewrite_landing_links
            (''['' @ t @ ''](https://docs.camunda.io/docs/next/'' @ p @ '')'' @ rest)
          = ''['' @ t @ ''](../../'' @ apply_overrides (rstrip_slash p) @ ''.md)'' @
              rewrite_landing_links rest) \<and>
   (match_docs_link (c # cs) = None
      \<longrightarrow> rewrite_camunda_docs_links (c # cs) = c # rewrite_camunda_docs_links cs \<and>
          rewrite_landing_links (c # cs) = c # rewrite_landing_links cs) \<and>
   (q = [] \<or> last q \<noteq> CHR ''/'' \<longrightarrow> rstrip_slash (q @ replicate n CHR ''/'') = q) \<and>
   apply_overrides q = str_replace ''camunda-api-rest'' ''orchestration-cluster-api-rest'' q"
proof (intro conjI impI)
  show "rewrite_camunda_docs_links x = x \<longleftrightarrow> \<not> has_docs_link x"
    unfolding rewrite_camunda_docs_links_def
    by (rule docs_link_sub_fixpoint [OF relative_rewrite_match])
  show "rewrite_landing_links x = x \<longleftrightarrow> \<not> has_docs_link x"
    unfolding rewrite_landing_links_def
    by (rule docs_link_sub_fixpoint [OF relative_landing_replace])
  show "rewrite_camunda_docs_links (rewrite_camunda_docs_links x) = rewrite_camunda_docs_links x
      \<longleftrightarrow> \<not> has_docs_link (rewrite_camunda_docs_links x)"
    unfolding rewrite_camunda_docs_links_def
    by (rule docs_link_sub_fixpoint [OF relative_rewrite_match])
  show "rewrite_landing_links (rewrite_landing_links x) = rewrite_landing_links x
      \<longleftrightarrow> \<not> has_docs_link (rewrite_landing_links x)"
    unfolding rewrite_landing_links_def
    by (rule docs_link_sub_fixpoint [OF relative_landing_replace])
next
  assume h: "CHR '']'' \<notin> set t \<and> CHR '')'' \<notin> set p \<and> CHR 0x0A \<notin> set p"
  then have m: "match_docs_link (''['' @ t @ ''](https://docs.camunda.io/docs/next/'' @ p @ '')'' @ rest)
      = Some (t, p, rest)"
    by (intro match_docs_link_next) simp_all
  have e: "''['' @ t @ ''](https://docs.camunda.io/docs/next/'' @ p @ '')'' @ rest
      = CHR ''['' # (t @ ''](https://docs.camunda.io/docs/next/'' @ p @ '')'' @ rest)"
    by simp
  show "rewrite_camunda_docs_links
          (''['' @ t @ ''](https://docs.camunda.io/docs/next/'' @ p @ '')'' @ rest)
        = ''['' @ t @ ''](../../../'' @ apply_overrides (rstrip_slash p) @ ''.md)'' @
            rewrite_camunda_docs_links rest"
    unfolding rewrite_camunda_docs_links_def
    using docs_link_sub_match [OF m [unfolded e], of rewrite_match]
    by (simp add: rewrite_match_def DEPLOYMENT_DEPTH_def numeral_3_eq_3)
  show "rewrite_landing_links
          (''['' @ t @ ''](https://docs.camunda.io/docs/next/'' @ p @ '')'' @ rest)
        = ''['' @ t @ ''](../../'' @ apply_overrides (rstrip_slash p) @ ''.md)'' @
            rewrite_landing_links rest"
    unfolding rewrite_landing_links_def
    using docs_link_sub_match [OF m [unfolded e], of landing_replace]
    by (simp add: landing_replace_def LANDING_PAGE_DEPTH_def numeral_2_eq_2)
next
  assume "match_docs_link (c # cs) = None"
  then show "rewrite_camunda_docs_links (c # cs) = c # rewrite_camunda_docs_links cs"
    and "rewrite_landing_links (c # cs) = c # rewrite_landing_links cs"
    by (simp_all add: rewrite_camunda_docs_links_def rewrite_landing_links_def docs_link_sub_no_match)
next
  assume "q = [] \<or> last q \<noteq> CHR ''/''"
  then show "rstrip_slash (q @ replicate n CHR ''/'') = q" by (rule rstrip_slash_trailing)
next
  show "apply_overrides q = str_replace ''camunda-api-rest'' ''orchestration-cluster-api-rest'' q"
    by (simp add: apply_overrides_def URL_PATH_OVERRIDES_def)
qed

theorem docs_links_rewritten_witness:
  "\<not> has_docs_link ex_plain \<and>
   rewrite_camunda_docs_links ex_plain = ex_plain \<and>
   rewrite_landing_links ex_plain = ex_plain \<and>
   rewrite_camunda_docs_links ''[text](https://docs.camunda.io/docs/next/some/path/)''
     = ''[text](../../../some/path.md)'' \<and>
   rewrite_landing_links ''[text](https://docs.camunda.io/docs/next/some/path/)''
     = ''[text](../../some/path.md)'' \<and>
   rewrite_camunda_docs_links
       ''[REST](https://docs.camunda.io/docs/next/apis-tools/camunda-api-rest/overview/). ''
     = ''[REST](../../../apis-tools/orchestration-cluster-api-rest/overview.md). '' \<and>
   rstrip_slash ''some/path//'' = ''some/path''"
proof -
  have plain: "\<not> has_docs_link ex_plain"
    by (simp add: ex_plain_def match_docs_link_def optional_def in_path_def)
  have 1: "rewrite_camunda_docs_links ex_plain = ex_plain"
    and 2: "rewrite_landing_links ex_plain = ex_plain"
    using docs_links_rewritten [of ex_plain] plain by blast+
  have side: "CHR '']'' \<notin> set ''text'' \<and> CHR '')'' \<notin> set ''some/path/'' \<and>
      CHR 0x0A \<notin> set ''some/path/''"
    by simp
  have ov: "apply_overrides (rstrip_slash ''some/path/'') = ''some/path''"
    by (simp add: link_eval)
  have nil: "rewrite_camunda_docs_links [] = []" "rewrite_landing_links [] = []"
    by (simp_all add: link_eval)
  have 3: "rewrite_camunda_docs_links ''[text](https://docs.camunda.io/docs/next/some/path/)''
      = ''[text](../../../some/path.md)''"
    using docs_links_rewritten [of _ "''text''" "''some/path/''" "[]"] side
    by (simp add: ov nil)
  have 4: "rewrite_landing_links ''[text](https://docs.camunda.io/docs/next/some/path/)''
      = ''[text](../../some/path.md)''"
    using docs_links_rewritten [of _ "''text''" "''some/path/''" "[]"] side
    by (simp add: ov nil)
  have side5: "CHR '']'' \<notin> set ''REST'' \<and> CHR '')'' \<notin> set ''apis-tools/camunda-api-rest/overview/'' \<and>
      CHR 0x0A \<notin> set ''apis-tools/camunda-api-rest/overview/''"
    by simp
  have ov5: "apply_overrides (rstrip_slash ''apis-tools/camunda-api-rest/overview/'')
      = ''apis-tools/orchestration-cluster-api-rest/overview''"
    by (simp add: link_eval)
  have tail: "rewrite_camunda_docs_links ''. '' = ''. ''"
    using docs_links_rewritten [of "''. ''"] by (simp add: match_docs_link_def)
  have 5: "rewrite_camunda_docs_links
       ''[REST](https://docs.camunda.io/docs/next/apis-tools/camunda-api-rest/overview/). ''
     = ''[REST](../../../apis-tools/orchestration-cluster-api-rest/overview.md). ''"
    using docs_links_rewritten [of _ "''REST''" "''apis-tools/camunda-api-rest/overview/''" "''. ''"]
      side5
    by (simp add: ov5 tail)
  have 6: "rstrip_slash ''some/path//'' = ''some/path''"
    using docs_links_rewritten [of _ _ _ _ _ _ "''some/path''" 2]
    by (simp add: numeral_2_eq_2)
  from plain 1 2 3 4 5 6 show ?thesis by (intro conjI)
qed

end
